theory Spec2Isabelle
  imports Complex_Main "HOL-Library.Multiset"
begin

section \<open>Python exceptions raised by the notebook's own code\<close>

text \<open>
  \<open>ZeroDivisionError\<close>: Python's \<open>/\<close> on a zero divisor (int or float).
  \<open>RuntimeError\<close>: taking the truth value of a tensor that does not hold exactly one
  element ("Boolean value of Tensor with more than one value is ambiguous").
  \<open>IndexError\<close>: indexing a dataset or an index list out of range.
\<close>

datatype py_error = ZeroDivisionError | RuntimeError | IndexError

section \<open>Datasets, subsets and data loaders\<close>

text \<open>
  The two transform pipelines of the notebook. \<open>train_transform\<close> is the augmenting one,
  \<open>test_transform\<close> the deterministic one.
\<close>

datatype transform_id = train_transform | test_transform

text \<open>
  An image as a batch carries it: which file of the dataset it was read from, and the
  transform that was applied when it was read (\<open>None\<close>: no transform).
\<close>

datatype image = Image (index: nat) (via: "transform_id option")

text \<open>
  An \<open>ImageFolder\<close> object: the label of every file, and the mutable \<open>transform\<close>
  attribute. Objects live in a store and are named by their address, so that two
  references to one object see each other's assignments.
\<close>

record imagefolder =
  targets :: "int list"
  transform :: "transform_id option"

type_synonym addr = nat
type_synonym store = "addr \<Rightarrow> imagefolder"

text \<open>
  What a \<open>DataLoader\<close> can be built on: the \<open>ImageFolder\<close> itself, or a
  \<open>Subset(dataset=d, indices=ix)\<close>, which keeps a reference to \<open>d\<close> and the index list.
\<close>

datatype data = ImageFolder addr | Subset addr "nat list"

text \<open>\<open>s.dataset\<close> of a \<open>Subset\<close>: the referenced object, not a copy.\<close>

fun dataset_of :: "data \<Rightarrow> addr" where
  "dataset_of (ImageFolder a) = a"
| "dataset_of (Subset a ix) = a"

text \<open>\<open>obj.transform = t\<close>\<close>

definition set_transform :: "store \<Rightarrow> addr \<Rightarrow> transform_id \<Rightarrow> store" where
  "set_transform h a t = h(a := (h a)\<lparr>transform := Some t\<rparr>)"

text \<open>\<open>len(d)\<close> and \<open>d[i]\<close>. The transform is read from the object when the item is read.\<close>

fun data_len :: "store \<Rightarrow> data \<Rightarrow> nat" where
  "data_len h (ImageFolder a) = length (targets (h a))"
| "data_len h (Subset a ix) = length ix"

definition imagefolder_getitem :: "store \<Rightarrow> addr \<Rightarrow> nat \<Rightarrow> py_error + (image \<times> int)" where
  "imagefolder_getitem h a i =
     (if i < length (targets (h a))
      then Inr (Image i (transform (h a)), targets (h a) ! i)
      else Inl IndexError)"

fun getitem :: "store \<Rightarrow> data \<Rightarrow> nat \<Rightarrow> py_error + (image \<times> int)" where
  "getitem h (ImageFolder a) i = imagefolder_getitem h a i"
| "getitem h (Subset a ix) i =
     (if i < length ix then imagefolder_getitem h a (ix ! i) else Inl IndexError)"

record loader =
  dl_dataset :: data
  dl_batch_size :: nat
  dl_shuffle :: bool

text \<open>
  The batch sampler: consecutive groups of \<open>batch_size\<close> positions, the last one shorter
  (\<open>drop_last=False\<close>). The notebook only builds loaders of batch size 32 and 1.
\<close>

function chunks :: "nat \<Rightarrow> 'a list \<Rightarrow> 'a list list" where
  "chunks n xs = (if n = 0 \<or> xs = [] then [] else take n xs # chunks n (drop n xs))"
  by pat_completeness auto
termination
  by (relation "measure (\<lambda>(n, xs). length xs)") auto

declare chunks.simps [simp del]

fun load_batch :: "store \<Rightarrow> data \<Rightarrow> nat list \<Rightarrow> py_error + (image \<times> int) list" where
  "load_batch h d [] = Inr []"
| "load_batch h d (i # rest) =
     (case getitem h d i of
        Inl e \<Rightarrow> Inl e
      | Inr s \<Rightarrow> (case load_batch h d rest of Inl e \<Rightarrow> Inl e | Inr ss \<Rightarrow> Inr (s # ss)))"

fun load_batches :: "store \<Rightarrow> data \<Rightarrow> nat list list \<Rightarrow> py_error + (image \<times> int) list list" where
  "load_batches h d [] = Inr []"
| "load_batches h d (b # rest) =
     (case load_batch h d b of
        Inl e \<Rightarrow> Inl e
      | Inr ss \<Rightarrow> (case load_batches h d rest of Inl e \<Rightarrow> Inl e | Inr bs \<Rightarrow> Inr (ss # bs)))"

section \<open>The model, the optimizer, the scheduler\<close>

text \<open>
  The network object: \<open>params\<close> is what \<open>state_dict()\<close> returns and
  \<open>load_state_dict\<close> overwrites (parameters and buffers), \<open>grad\<close> the accumulated
  gradients (\<open>None\<close> after \<open>zero_grad\<close>), \<open>training\<close> the mode flag.
\<close>

record ('p, 'g) module =
  params :: 'p
  grad :: "'g option"
  training :: bool

text \<open>
  What the tensor library computes is a parameter of the development: the forward pass
  in training mode (which also updates the buffers) and in inference mode, the loss,
  the gradient, the steps of \<open>AdamW\<close> and \<open>CyclicLR\<close> and their freshly constructed
  states, and the permutation drawn by a shuffling loader at its \<open>k\<close>-th draw.
  \<open>kfold_shuffle\<close> is the shuffle of \<open>RandomState(42)\<close>.
\<close>

record ('p, 'g, 'o, 's) torch =
  forward_train :: "'p \<Rightarrow> image list \<Rightarrow> real list \<times> 'p"
  forward_eval :: "'p \<Rightarrow> image \<Rightarrow> real"
  loss_fn :: "real list \<Rightarrow> real list \<Rightarrow> real"
  backward :: "'p \<Rightarrow> 'g option \<Rightarrow> image list \<Rightarrow> real list \<Rightarrow> 'g"
  opt_step :: "'o \<Rightarrow> 'p \<Rightarrow> 'g option \<Rightarrow> 'o \<times> 'p"
  sched_step :: "'s \<Rightarrow> 'o \<Rightarrow> 's \<times> 'o"
  AdamW :: 'o
  CyclicLR :: "'o \<Rightarrow> 's \<times> 'o"
  randperm :: "nat \<Rightarrow> nat list \<Rightarrow> nat list"
  kfold_shuffle :: "nat list \<Rightarrow> nat list"

text \<open>The calls made on library objects and the lines printed, in the order they happen.\<close>

datatype event =
    ModelTrain
  | ModelEval
  | ZeroGrad nat
  | Forward "image list"
  | LossFn "real list"
  | Backward
  | OptimizerStep nat
  | SchedulerStep nat
  | Progress "nat option" nat nat nat nat real
  | TrainingComplete
  | TestMetrics real real real real
  | AverageMetrics real real real real
  | TorchSave string

text \<open>
  The state of the notebook: the store of dataset objects, the one network object
  \<open>cancer_net\<close>, the snapshot \<open>state_dict\<close> (a deep copy, hence a value of its own),
  the globals \<open>optimizer\<close> and \<open>scheduler\<close> (unbound before the first fold) with the
  identity of the object they hold, the running sums, the files written, the number of
  permutations drawn so far and the identity the next constructed object gets.
\<close>

record ('p, 'g, 'o, 's) nb =
  heap :: store
  cancer_net :: "('p, 'g) module"
  state_dict :: 'p
  optimizer :: "(nat \<times> 'o) option"
  scheduler :: "(nat \<times> 's) option"
  totals :: "real \<times> real \<times> real \<times> real"
  files :: "string \<rightharpoonup> 'p"
  draws :: nat
  next_id :: nat
  calls :: "event list"

section \<open>The tensor expressions of \<open>evaluate_model\<close>\<close>

text \<open>
  The network ends in \<open>nn.Linear(128, 1)\<close>, so \<open>outputs\<close> and \<open>predicted\<close> have shape
  \<open>(B, 1)\<close>: a list of \<open>B\<close> rows of one column, kept here as the list of the \<open>B\<close> entries.
  \<open>labels\<close> has shape \<open>(B,)\<close>. Floats are idealised as reals.
\<close>

definition sigmoid :: "real \<Rightarrow> real" where
  "sigmoid x = 1 / (1 + exp (- x))"

text \<open>\<open>(predicted > threshold).long()\<close>\<close>

definition gt_long :: "real list \<Rightarrow> real \<Rightarrow> int list" where
  "gt_long predicted threshold = map (\<lambda>p. if p > threshold then 1 else 0) predicted"

text \<open>
  \<open>predicted == labels\<close>: shapes \<open>(B, 1)\<close> and \<open>(B,)\<close> broadcast to \<open>(B, B)\<close>; entry
  \<open>(i, j)\<close> compares \<open>predicted[i][0]\<close> with \<open>labels[j]\<close>.
\<close>

definition eq_broadcast :: "int list \<Rightarrow> int list \<Rightarrow> bool list list" where
  "eq_broadcast predicted labels = map (\<lambda>p. map (\<lambda>l. p = l) labels) predicted"

text \<open>\<open>predicted == 1\<close>, shape \<open>(B, 1)\<close>, and \<open>labels == 1\<close>, shape \<open>(B,)\<close>, as one row.\<close>

definition eq_scalar_col :: "int list \<Rightarrow> int \<Rightarrow> bool list list" where
  "eq_scalar_col predicted v = map (\<lambda>p. [p = v]) predicted"

definition eq_scalar_vec :: "int list \<Rightarrow> int \<Rightarrow> bool list list" where
  "eq_scalar_vec labels v = [map (\<lambda>l. l = v) labels]"

text \<open>\<open>t.sum().item()\<close> on a Boolean tensor: the number of \<open>True\<close> entries, a Python int.\<close>

definition tensor_sum :: "bool list list \<Rightarrow> int" where
  "tensor_sum t = int (length (filter (\<lambda>b. b) (concat t)))"

text \<open>\<open>bool(t)\<close>: defined only for a tensor of exactly one element.\<close>

definition tensor_bool :: "bool list list \<Rightarrow> py_error + bool" where
  "tensor_bool t = (case concat t of [b] \<Rightarrow> Inr b | _ \<Rightarrow> Inl RuntimeError)"

text \<open>
  Python's \<open>a and b\<close>: the truth value of \<open>a\<close> is taken; when it is false the result is
  \<open>a\<close> itself, otherwise \<open>b\<close>.
\<close>

definition py_and :: "bool list list \<Rightarrow> bool list list \<Rightarrow> py_error + bool list list" where
  "py_and a b = (case tensor_bool a of Inl e \<Rightarrow> Inl e | Inr t \<Rightarrow> Inr (if t then b else a))"

section \<open>\<open>evaluate_model\<close>\<close>

record counters =
  total :: int
  correct :: int
  total_positive :: int
  predicted_positive :: int
  predicted_positive_correct :: int

definition counters0 :: counters where
  "counters0 = \<lparr>total = 0, correct = 0, total_positive = 0, predicted_positive = 0,
                predicted_positive_correct = 0\<rparr>"

text \<open>
  One iteration of \<open>for images, labels in data_loader\<close>. A batch is the list of its
  \<open>(image, label)\<close> samples; \<open>model\<close> gives the logit of one image (inference mode).
\<close>

definition eval_batch ::
  "('img \<Rightarrow> real) \<Rightarrow> real \<Rightarrow> ('img \<times> int) list \<Rightarrow> counters \<Rightarrow> py_error + counters" where
  "eval_batch model threshold batch c =
     (let images = map fst batch;
          labels = map snd batch;
          outputs = map model images;
          predicted = map sigmoid outputs;
          predicted = gt_long predicted threshold;
          c = c\<lparr>total := total c + int (length labels)\<rparr>;
          c = c\<lparr>correct := correct c + tensor_sum (eq_broadcast predicted labels)\<rparr>;
          c = c\<lparr>total_positive := total_positive c + tensor_sum (eq_scalar_vec labels 1)\<rparr>;
          c = c\<lparr>predicted_positive :=
                  predicted_positive c + tensor_sum (eq_scalar_col predicted 1)\<rparr>
      in case py_and (eq_broadcast predicted labels) (eq_scalar_col predicted 1) of
           Inl e \<Rightarrow> Inl e
         | Inr t \<Rightarrow> Inr (c\<lparr>predicted_positive_correct :=
                              predicted_positive_correct c + tensor_sum t\<rparr>))"

fun eval_loop ::
  "('img \<Rightarrow> real) \<Rightarrow> real \<Rightarrow> ('img \<times> int) list list \<Rightarrow> counters \<Rightarrow> py_error + counters" where
  "eval_loop model threshold [] c = Inr c"
| "eval_loop model threshold (batch # rest) c =
     (case eval_batch model threshold batch c of
        Inl e \<Rightarrow> Inl e
      | Inr c' \<Rightarrow> eval_loop model threshold rest c')"

text \<open>Python's true division \<open>a / b\<close>.\<close>

definition py_truediv :: "real \<Rightarrow> real \<Rightarrow> py_error + real" where
  "py_truediv a b = (if b = 0 then Inl ZeroDivisionError else Inr (a / b))"

text \<open>The four statements after the loop, in the source's order.\<close>

definition metrics :: "counters \<Rightarrow> py_error + (real \<times> real \<times> real \<times> real)" where
  "metrics c =
     (case py_truediv (of_int (correct c)) (of_int (total c)) of
        Inl e \<Rightarrow> Inl e
      | Inr accuracy \<Rightarrow>
     (case py_truediv (of_int (predicted_positive_correct c)) (of_int (predicted_positive c)) of
        Inl e \<Rightarrow> Inl e
      | Inr precision \<Rightarrow>
     (case py_truediv (of_int (predicted_positive_correct c)) (of_int (total_positive c)) of
        Inl e \<Rightarrow> Inl e
      | Inr recall \<Rightarrow>
     (case py_truediv (2 * precision * recall) (precision + recall) of
        Inl e \<Rightarrow> Inl e
      | Inr f1_score \<Rightarrow> Inr (accuracy, precision, recall, f1_score)))))"

subsection \<open>Iterating a loader\<close>

text \<open>
  Iterating a loader: the sampler's order (a fresh permutation of the positions when
  \<open>shuffle=True\<close>, the \<open>k\<close>-th one drawn), cut into batches, each item read from the
  dataset as the store is at that moment.
\<close>

definition batches_of ::
  "('p, 'g, 'o, 's) torch \<Rightarrow> store \<Rightarrow> nat \<Rightarrow> loader \<Rightarrow> py_error + (image \<times> int) list list" where
  "batches_of lib h k data_loader =
     (let n = data_len h (dl_dataset data_loader);
          order = (if dl_shuffle data_loader then randperm lib k [0..<n] else [0..<n])
      in load_batches h (dl_dataset data_loader) (chunks (dl_batch_size data_loader) order))"

text \<open>The result of one \<open>for ... in data_loader\<close>: the batches and the state after the draw.\<close>

definition iterate ::
  "('p, 'g, 'o, 's) torch \<Rightarrow> ('p, 'g, 'o, 's) nb \<Rightarrow> loader \<Rightarrow>
   py_error + ((image \<times> int) list list \<times> ('p, 'g, 'o, 's) nb)" where
  "iterate lib st data_loader =
     (case batches_of lib (heap st) (draws st) data_loader of
        Inl e \<Rightarrow> Inl e
      | Inr batches \<Rightarrow>
          Inr (batches, if dl_shuffle data_loader then st\<lparr>draws := draws st + 1\<rparr> else st))"

subsection \<open>The function\<close>

text \<open>
  \<open>evaluate_model(model, data_loader, threshold)\<close>, with \<open>model\<close> the notebook's one
  network. The result is the returned tuple and the state (the mode flag is changed).
\<close>

definition evaluate_model ::
  "('p, 'g, 'o, 's) torch \<Rightarrow> ('p, 'g, 'o, 's) nb \<Rightarrow> loader \<Rightarrow> real \<Rightarrow>
   py_error + ((real \<times> real \<times> real \<times> real) \<times> ('p, 'g, 'o, 's) nb)" where
  "evaluate_model lib st data_loader threshold =
     (let st = st\<lparr>cancer_net := (cancer_net st)\<lparr>training := False\<rparr>,
                  calls := calls st @ [ModelEval]\<rparr>
      in case iterate lib st data_loader of
           Inl e \<Rightarrow> Inl e
         | Inr (batches, st) \<Rightarrow>
        (case eval_loop (forward_eval lib (params (cancer_net st))) threshold batches counters0 of
           Inl e \<Rightarrow> Inl e
         | Inr c \<Rightarrow>
        (case metrics c of
           Inl e \<Rightarrow> Inl e
         | Inr m \<Rightarrow> Inr (m, st))))"

section \<open>\<open>train_model\<close>\<close>

text \<open>
  The body of the inner loop up to \<open>scheduler.step()\<close>, on one batch. It gives the loss
  of the batch and the objects it changed: the notebook state (network and call
  record), the optimizer and the scheduler, each with its identity.
\<close>

definition train_step ::
  "('p, 'g, 'o, 's) torch \<Rightarrow> (image \<times> int) list \<Rightarrow>
   ('p, 'g, 'o, 's) nb \<times> (nat \<times> 'o) \<times> (nat \<times> 's) \<Rightarrow>
   real \<times> ('p, 'g, 'o, 's) nb \<times> (nat \<times> 'o) \<times> (nat \<times> 's)" where
  "train_step lib batch w =
     (case w of (st, (opt_id, opt), (sched_id, sched)) \<Rightarrow>
      let inputs = map fst batch;
          labels = map snd batch;
          net = (cancer_net st)\<lparr>grad := None\<rparr>;
          out = forward_train lib (params net) inputs;
          outputs = fst out;
          net = net\<lparr>params := snd out\<rparr>;
          loss = loss_fn lib outputs (map of_int labels);
          net = net\<lparr>grad := Some (backward lib (params net) (grad net) inputs (map of_int labels))\<rparr>;
          stepped = opt_step lib opt (params net) (grad net);
          net = net\<lparr>params := snd stepped\<rparr>;
          cycled = sched_step lib sched (fst stepped);
          st = st\<lparr>cancer_net := net,
                   calls := calls st @
                     [ZeroGrad opt_id, Forward inputs, LossFn (map of_int labels), Backward,
                      OptimizerStep opt_id, SchedulerStep sched_id]\<rparr>
      in (loss, st, (opt_id, snd cycled), (sched_id, fst cycled)))"

text \<open>
  \<open>for inputs, labels in data_loader\<close> with the counter \<open>i\<close> and the loss window;
  \<open>len\<close> is \<open>len(data_loader)\<close>.
\<close>

fun train_batches ::
  "('p, 'g, 'o, 's) torch \<Rightarrow> nat option \<Rightarrow> nat \<Rightarrow> nat \<Rightarrow> nat \<Rightarrow>
   (image \<times> int) list list \<Rightarrow> nat \<Rightarrow> real \<Rightarrow>
   ('p, 'g, 'o, 's) nb \<times> (nat \<times> 'o) \<times> (nat \<times> 's) \<Rightarrow>
   ('p, 'g, 'o, 's) nb \<times> (nat \<times> 'o) \<times> (nat \<times> 's)" where
  "train_batches lib current_fold epoch num_epochs len [] i current_loss w = w"
| "train_batches lib current_fold epoch num_epochs len (batch # rest) i current_loss w =
     (case train_step lib batch w of (loss, st, opt, sched) \<Rightarrow>
      let current_loss = current_loss + loss
      in if i mod 10 = 9 \<or> int i = int len - 1
         then train_batches lib current_fold epoch num_epochs len rest (i + 1) 0
                (st\<lparr>calls := calls st @
                   [Progress (map_option Suc current_fold) (epoch + 1) num_epochs (i + 1) len
                      current_loss]\<rparr>, opt, sched)
         else train_batches lib current_fold epoch num_epochs len rest (i + 1) current_loss
                (st, opt, sched))"

text \<open>\<open>for epoch in range(num_epochs)\<close>, each pass a new iteration of the loader.\<close>

fun train_epochs ::
  "('p, 'g, 'o, 's) torch \<Rightarrow> loader \<Rightarrow> nat option \<Rightarrow> nat \<Rightarrow> nat list \<Rightarrow>
   ('p, 'g, 'o, 's) nb \<times> (nat \<times> 'o) \<times> (nat \<times> 's) \<Rightarrow>
   py_error + ('p, 'g, 'o, 's) nb \<times> (nat \<times> 'o) \<times> (nat \<times> 's)" where
  "train_epochs lib data_loader current_fold num_epochs [] w = Inr w"
| "train_epochs lib data_loader current_fold num_epochs (epoch # rest) w =
     (case w of (st, opt, sched) \<Rightarrow>
     (case iterate lib st data_loader of
        Inl e \<Rightarrow> Inl e
      | Inr (batches, st) \<Rightarrow>
          train_epochs lib data_loader current_fold num_epochs rest
            (train_batches lib current_fold epoch num_epochs (length batches) batches 0 0
               (st, opt, sched))))"

text \<open>
  \<open>train_model(model, data_loader, optimizer, loss_fn, scheduler, current_fold,
  num_epochs)\<close>. The Python function returns nothing; the value here is the objects it
  changed in place.
\<close>

definition train_model ::
  "('p, 'g, 'o, 's) torch \<Rightarrow> ('p, 'g, 'o, 's) nb \<Rightarrow> loader \<Rightarrow> (nat \<times> 'o) \<Rightarrow> (nat \<times> 's) \<Rightarrow>
   nat option \<Rightarrow> nat \<Rightarrow> py_error + ('p, 'g, 'o, 's) nb \<times> (nat \<times> 'o) \<times> (nat \<times> 's)" where
  "train_model lib st data_loader opt sched current_fold num_epochs =
     (let st = st\<lparr>cancer_net := (cancer_net st)\<lparr>training := True\<rparr>,
                  calls := calls st @ [ModelTrain]\<rparr>
      in case train_epochs lib data_loader current_fold num_epochs [0..<num_epochs]
                (st, opt, sched) of
           Inl e \<Rightarrow> Inl e
         | Inr (st, opt, sched) \<Rightarrow>
             Inr (st\<lparr>calls := calls st @ [TrainingComplete]\<rparr>, opt, sched))"

section \<open>The k-fold splitter\<close>

text \<open>
  Modelled from the spec: \<open>KFold(n_splits, shuffle=True, random_state=42).split\<close> is
  called by the notebook but its code belongs to the scikit-learn library, which is
  not part of the source. The spec says that the Split step partitions the dataset
  indices into K disjoint test sets whose union is the full index set, using an
  externally seeded shuffle. The model takes the shuffled index array as given, cuts it
  into \<open>n_splits\<close> consecutive test chunks whose sizes differ by at most one (the first
  \<open>n mod n_splits\<close> chunks get the extra element), and gives for each chunk the pair of
  the remaining indices and the chunk's indices, both in increasing order. The checks
  the library makes on its arguments are not part of the model.
\<close>

definition fold_sizes :: "nat \<Rightarrow> nat \<Rightarrow> nat list" where
  "fold_sizes n_samples n_splits =
     map (\<lambda>i. n_samples div n_splits + (if i < n_samples mod n_splits then 1 else 0))
       [0..<n_splits]"

fun test_chunks :: "nat list \<Rightarrow> nat list \<Rightarrow> nat list list" where
  "test_chunks [] indices = []"
| "test_chunks (fold_size # rest) indices =
     take fold_size indices # test_chunks rest (drop fold_size indices)"

definition KFold_split :: "nat \<Rightarrow> nat list \<Rightarrow> (nat list \<times> nat list) list" where
  "KFold_split n_splits indices =
     (let n = length indices
      in map (\<lambda>chunk. (filter (\<lambda>i. i \<notin> set chunk) [0..<n], filter (\<lambda>i. i \<in> set chunk) [0..<n]))
           (test_chunks (fold_sizes n n_splits) indices))"

section \<open>The cells of the notebook\<close>

text \<open>The global \<open>dataset\<close>: a reference to the one \<open>ImageFolder\<close> object.\<close>

definition dataset :: addr where
  "dataset = 0"

text \<open>
  The state after the cells that come before cross-validation, for a data directory
  whose files have the labels \<open>labels\<close> and a network constructed with the parameters
  \<open>p0\<close>: \<open>dataset = ImageFolder(root="data", transform=None)\<close> and
  \<open>state_dict = copy.deepcopy(cancer_net.state_dict())\<close>.
\<close>

definition setup_cells :: "int list \<Rightarrow> 'p \<Rightarrow> ('p, 'g, 'o, 's) nb" where
  "setup_cells labels p0 =
     \<lparr>heap = (\<lambda>a. \<lparr>targets = [], transform = None\<rparr>)
               (dataset := \<lparr>targets = labels, transform = None\<rparr>),
      cancer_net = \<lparr>params = p0, grad = None, training = True\<rparr>,
      state_dict = p0,
      optimizer = None,
      scheduler = None,
      totals = (0, 0, 0, 0),
      files = Map.empty,
      draws = 0,
      next_id = 0,
      calls = []\<rparr>"

text \<open>
  \<open>optimizer = optim.AdamW(...)\<close> and \<open>scheduler = lr_scheduler.CyclicLR(optimizer, ...)\<close>:
  two new objects, each with an identity of its own; the scheduler's constructor also
  writes into the optimizer it is given.
\<close>

definition new_optimizer_scheduler ::
  "('p, 'g, 'o, 's) torch \<Rightarrow> ('p, 'g, 'o, 's) nb \<Rightarrow>
   ('p, 'g, 'o, 's) nb \<times> (nat \<times> 'o) \<times> (nat \<times> 's)" where
  "new_optimizer_scheduler lib st =
     (let opt_id = next_id st;
          st = st\<lparr>next_id := next_id st + 1\<rparr>;
          cyc = CyclicLR lib (AdamW lib);
          sched_id = next_id st;
          st = st\<lparr>next_id := next_id st + 1\<rparr>;
          st = st\<lparr>optimizer := Some (opt_id, snd cyc), scheduler := Some (sched_id, fst cyc)\<rparr>
      in (st, (opt_id, snd cyc), (sched_id, fst cyc)))"

text \<open>\<open>cancer_net.load_state_dict(state_dict)\<close>\<close>

definition load_state_dict :: "('p, 'g, 'o, 's) nb \<Rightarrow> ('p, 'g, 'o, 's) nb" where
  "load_state_dict st = st\<lparr>cancer_net := (cancer_net st)\<lparr>params := state_dict st\<rparr>\<rparr>"

text \<open>
  The loop body of the cross-validation cell up to the construction of \<open>test_loader\<close>.
  The result is the state and the four objects the rest of the body uses.
\<close>

definition fold_setup ::
  "('p, 'g, 'o, 's) torch \<Rightarrow> nat \<Rightarrow> nat list \<Rightarrow> nat list \<Rightarrow> ('p, 'g, 'o, 's) nb \<Rightarrow>
   ('p, 'g, 'o, 's) nb \<times> (nat \<times> 'o) \<times> (nat \<times> 's) \<times> loader \<times> loader" where
  "fold_setup lib batch_size train_i test_i st =
     (case new_optimizer_scheduler lib st of (st, opt, sched) \<Rightarrow>
      let train_data = Subset dataset train_i;
          st = st\<lparr>heap := set_transform (heap st) (dataset_of train_data) train_transform\<rparr>;
          train_loader = \<lparr>dl_dataset = train_data, dl_batch_size = batch_size, dl_shuffle = True\<rparr>;
          test_data = Subset dataset test_i;
          st = st\<lparr>heap := set_transform (heap st) (dataset_of test_data) test_transform\<rparr>;
          test_loader = \<lparr>dl_dataset = test_data, dl_batch_size = 1, dl_shuffle = False\<rparr>
      in (st, opt, sched, train_loader, test_loader))"

text \<open>The whole loop body for one fold; \<open>fold_no\<close> is the loop variable \<open>fold\<close>.\<close>

definition cv_fold ::
  "('p, 'g, 'o, 's) torch \<Rightarrow> nat \<Rightarrow> nat \<Rightarrow> nat \<Rightarrow> nat list \<times> nat list \<Rightarrow>
   ('p, 'g, 'o, 's) nb \<Rightarrow> py_error + ('p, 'g, 'o, 's) nb" where
  "cv_fold lib batch_size num_epochs fold_no split st =
     (case fold_setup lib batch_size (fst split) (snd split) st of
        (st, opt, sched, train_loader, test_loader) \<Rightarrow>
     (case train_model lib st train_loader opt sched (Some fold_no) num_epochs of
        Inl e \<Rightarrow> Inl e
      | Inr (st, opt, sched) \<Rightarrow>
     (let st = st\<lparr>optimizer := Some opt, scheduler := Some sched\<rparr>
      in (case evaluate_model lib st test_loader (3 / 10) of
        Inl e \<Rightarrow> Inl e
      | Inr ((accuracy, precision, recall, f1_score), st) \<Rightarrow>
          (case totals st of (total_a, total_p, total_r, total_f1) \<Rightarrow>
           (let st = st\<lparr>totals := (total_a + accuracy, total_p + precision,
                                    total_r + recall, total_f1 + f1_score),
                         calls := calls st @ [TestMetrics accuracy precision recall f1_score]\<rparr>
            in Inr (load_state_dict st)))))))"

fun cv_loop ::
  "('p, 'g, 'o, 's) torch \<Rightarrow> nat \<Rightarrow> nat \<Rightarrow> (nat \<times> nat list \<times> nat list) list \<Rightarrow>
   ('p, 'g, 'o, 's) nb \<Rightarrow> py_error + ('p, 'g, 'o, 's) nb" where
  "cv_loop lib batch_size num_epochs [] st = Inr st"
| "cv_loop lib batch_size num_epochs ((fold_no, split) # rest) st =
     (case cv_fold lib batch_size num_epochs fold_no split st of
        Inl e \<Rightarrow> Inl e
      | Inr st' \<Rightarrow> cv_loop lib batch_size num_epochs rest st')"






section \<open>Notions used to state the properties\<close>

text \<open>The thresholded prediction for one image: 1 when the sigmoid of the logit exceeds the threshold.\<close>

definition pred_of :: "('img \<Rightarrow> real) \<Rightarrow> real \<Rightarrow> 'img \<Rightarrow> int" where
  "pred_of model threshold x = (if sigmoid (model x) > threshold then 1 else 0)"

text \<open>The counters of \<open>evaluate_model\<close> when its loop has ended.\<close>

definition eval_counters ::
  "('p, 'g, 'o, 's) torch \<Rightarrow> ('p, 'g, 'o, 's) nb \<Rightarrow> loader \<Rightarrow> real \<Rightarrow> py_error + counters" where
  "eval_counters lib st data_loader threshold =
     (case batches_of lib (heap st) (draws st) data_loader of
        Inl e \<Rightarrow> Inl e
      | Inr batches \<Rightarrow>
          eval_loop (forward_eval lib (params (cancer_net st))) threshold batches counters0)"

text \<open>What holds of counters that count single samples.\<close>

definition counters_consistent :: "counters \<Rightarrow> bool" where
  "counters_consistent c \<longleftrightarrow>
     0 \<le> correct c \<and> correct c \<le> total c \<and>
     0 \<le> predicted_positive_correct c \<and>
     predicted_positive_correct c \<le> correct c \<and>
     predicted_positive_correct c \<le> predicted_positive c \<and>
     predicted_positive_correct c \<le> total_positive c"

text \<open>The state \<open>evaluate_model\<close> leaves behind when it returns.\<close>

definition eval_state :: "('p, 'g, 'o, 's) nb \<Rightarrow> loader \<Rightarrow> ('p, 'g, 'o, 's) nb" where
  "eval_state st data_loader =
     (let st = st\<lparr>cancer_net := (cancer_net st)\<lparr>training := False\<rparr>,
                  calls := calls st @ [ModelEval]\<rparr>
      in if dl_shuffle data_loader then st\<lparr>draws := draws st + 1\<rparr> else st)"

text \<open>
  The calls \<open>train_model\<close> makes for one batch, and the printed progress lines that
  are interleaved with them.
\<close>

definition batch_calls :: "nat \<Rightarrow> nat \<Rightarrow> (image \<times> int) list \<Rightarrow> event list" where
  "batch_calls opt_id sched_id batch =
     [ZeroGrad opt_id, Forward (map fst batch), LossFn (map of_int (map snd batch)), Backward,
      OptimizerStep opt_id, SchedulerStep sched_id]"

text \<open>What training and evaluation leave alone in the notebook state.\<close>

definition unchanged :: "('p, 'g, 'o, 's) nb \<Rightarrow> ('p, 'g, 'o, 's) nb \<Rightarrow> bool" where
  "unchanged st st' \<longleftrightarrow>
     heap st' = heap st \<and> state_dict st' = state_dict st \<and> optimizer st' = optimizer st \<and>
     scheduler st' = scheduler st \<and> totals st' = totals st \<and> files st' = files st \<and>
     next_id st' = next_id st"

fun is_progress :: "event \<Rightarrow> bool" where
  "is_progress (Progress current_fold epoch num_epochs i len current_loss) = True"
| "is_progress e = False"

definition steps :: "event list \<Rightarrow> event list" where
  "steps evs = filter (\<lambda>e. \<not> is_progress e) evs"

text \<open>The events that belong to training: every one except evaluation, reports and saving.\<close>

fun is_train_event :: "event \<Rightarrow> bool" where
  "is_train_event ModelEval = False"
| "is_train_event (TestMetrics accuracy precision recall f1_score) = False"
| "is_train_event (AverageMetrics accuracy precision recall f1_score) = False"
| "is_train_event (TorchSave path) = False"
| "is_train_event e = True"

fun is_save :: "event \<Rightarrow> bool" where
  "is_save (TorchSave path) = True"
| "is_save e = False"

text \<open>
  What one batch does to the network, the optimizer and the scheduler, written as the
  composition of the library's functions: the gradients are cleared, the forward pass
  in training mode updates the buffers, the gradient of the loss against the labels
  cast to floating point is stored, the optimizer steps on it, the scheduler steps on
  the optimizer. \<open>batch_loss\<close> is the loss of the batch for a network as it is before
  the batch, \<open>batch_losses\<close> the losses of consecutive batches.
\<close>

definition batch_effect ::
  "('p, 'g, 'o, 's) torch \<Rightarrow> (image \<times> int) list \<Rightarrow> ('p, 'g) module \<times> 'o \<times> 's \<Rightarrow>
   ('p, 'g) module \<times> 'o \<times> 's" where
  "batch_effect lib batch w =
     (case w of (net, opt, sched) \<Rightarrow>
      let inputs = map fst batch;
          float_labels = map of_int (map snd batch);
          p1 = snd (forward_train lib (params net) inputs);
          g = backward lib p1 None inputs float_labels;
          opt1 = fst (opt_step lib opt p1 (Some g));
          p2 = snd (opt_step lib opt p1 (Some g))
      in (net\<lparr>params := p2, grad := Some g\<rparr>,
          snd (sched_step lib sched opt1), fst (sched_step lib sched opt1)))"

definition batch_loss ::
  "('p, 'g, 'o, 's) torch \<Rightarrow> (image \<times> int) list \<Rightarrow> ('p, 'g) module \<times> 'o \<times> 's \<Rightarrow> real" where
  "batch_loss lib batch w =
     loss_fn lib (fst (forward_train lib (params (fst w)) (map fst batch)))
       (map of_int (map snd batch))"

fun batch_losses ::
  "('p, 'g, 'o, 's) torch \<Rightarrow> ('p, 'g) module \<times> 'o \<times> 's \<Rightarrow> (image \<times> int) list list \<Rightarrow>
   real list" where
  "batch_losses lib w [] = []"
| "batch_losses lib w (batch # rest) =
     batch_loss lib batch w # batch_losses lib (batch_effect lib batch w) rest"

text \<open>The loss a progress line prints, and the sum of the printed losses of a record.\<close>

fun progress_loss :: "event \<Rightarrow> real" where
  "progress_loss (Progress current_fold epoch num_epochs i len current_loss) = current_loss"
| "progress_loss e = 0"

definition printed_loss :: "event list \<Rightarrow> real" where
  "printed_loss evs = sum_list (map progress_loss evs)"

text \<open>
  The identities of the optimizers on which a record calls \<open>zero_grad\<close> or \<open>step\<close>, and
  of the schedulers on which it calls \<open>step\<close>.
\<close>

fun opt_ids_of :: "event \<Rightarrow> nat list" where
  "opt_ids_of (ZeroGrad i) = [i]"
| "opt_ids_of (OptimizerStep i) = [i]"
| "opt_ids_of e = []"

fun sched_ids_of :: "event \<Rightarrow> nat list" where
  "sched_ids_of (SchedulerStep i) = [i]"
| "sched_ids_of e = []"

definition opt_ids :: "event list \<Rightarrow> nat list" where
  "opt_ids evs = concat (map opt_ids_of evs)"

definition sched_ids :: "event list \<Rightarrow> nat list" where
  "sched_ids evs = concat (map sched_ids_of evs)"


text \<open>
  A small instance of the library, for running the definitions on concrete inputs:
  the parameters count the optimizer steps taken, the network in inference mode
  answers the logit \<open>ln 9\<close> on files of even index and \<open>- ln 9\<close> on the others, and
  every shuffle reverses its list.
\<close>

definition toy_lib :: "(nat, nat, nat, nat) torch" where
  "toy_lib =
     \<lparr>forward_train = (\<lambda>p inputs. (map (\<lambda>x. 0) inputs, p)),
      forward_eval = (\<lambda>p x. if even (index x) then ln 9 else - ln 9),
      loss_fn = (\<lambda>outputs labels. 1),
      backward = (\<lambda>p g inputs labels. length inputs),
      opt_step = (\<lambda>opt p g. (opt + 1, p + 1)),
      sched_step = (\<lambda>sched opt. (sched + 1, opt)),
      AdamW = 0,
      CyclicLR = (\<lambda>opt. (0, opt)),
      randperm = (\<lambda>k xs. rev xs),
      kfold_shuffle = rev\<rparr>"

definition toy_state :: "int list \<Rightarrow> (nat, nat, nat, nat) nb" where
  "toy_state labels = setup_cells labels 0"

section \<open>Properties of \<open>evaluate_model\<close>\<close>

subsection \<open>Evaluating the small instance\<close>

lemma sigmoid_ln9: "sigmoid (ln 9) = 9 / 10"
  by (simp add: sigmoid_def exp_minus field_simps)

lemma sigmoid_neg_ln9: "sigmoid (- ln 9) = 1 / 10"
  by (simp add: sigmoid_def)

lemma chunks_Nil: "chunks n [] = []"
  by (simp add: chunks.simps)

lemma chunks_Cons:
  "0 < n \<Longrightarrow> chunks n (x # xs) = take n (x # xs) # chunks n (drop n (x # xs))"
  by (simp add: chunks.simps [of n "x # xs"])

lemma chunks_Cons_1: "chunks (Suc 0) (x # xs) = [x] # chunks (Suc 0) xs"
  by (simp add: chunks.simps [of "Suc 0" "x # xs"])

lemmas toy_defs = toy_state_def setup_cells_def toy_lib_def dataset_def batches_of_def
  imagefolder_getitem_def eval_counters_def

lemmas tensor_defs = eval_batch_def gt_long_def eq_broadcast_def eq_scalar_col_def
  eq_scalar_vec_def tensor_sum_def tensor_bool_def py_and_def counters0_def

subsection \<open>The loop of \<open>evaluate_model\<close>\<close>

lemma length_concat_eq_broadcast:
  "length (concat (eq_broadcast predicted labels)) = length predicted * length labels"
  by (induction predicted) (simp_all add: eq_broadcast_def)

lemma case_singleton_Inl:
  "(case xs of [] \<Rightarrow> Inl RuntimeError | [b] \<Rightarrow> Inr b | b # c # ys \<Rightarrow> Inl RuntimeError) = Inl e
     \<longleftrightarrow> length xs \<noteq> 1 \<and> e = RuntimeError"
  by (cases xs; cases "tl xs") auto

lemma tensor_bool_Inl:
  "tensor_bool t = Inl e \<longleftrightarrow> length (concat t) \<noteq> 1 \<and> e = RuntimeError"
  unfolding tensor_bool_def by (rule case_singleton_Inl)

lemma eval_batch_single:
  "eval_batch model threshold [(x, l)] c =
     Inr (c\<lparr>total := total c + 1,
            correct := correct c + (if pred_of model threshold x = l then 1 else 0),
            total_positive := total_positive c + (if l = 1 then 1 else 0),
            predicted_positive :=
              predicted_positive c + (if pred_of model threshold x = 1 then 1 else 0),
            predicted_positive_correct := predicted_positive_correct c +
              (if pred_of model threshold x = 1 \<and> l = 1 then 1 else 0)\<rparr>)"
  by (simp add: eval_batch_def gt_long_def eq_broadcast_def eq_scalar_col_def eq_scalar_vec_def
      tensor_sum_def tensor_bool_def py_and_def pred_of_def)

lemma eval_batch_Inl:
  "eval_batch model threshold batch c = Inl e \<longleftrightarrow> length batch \<noteq> 1 \<and> e = RuntimeError"
proof -
  let ?predicted = "gt_long (map sigmoid (map model (map fst batch))) threshold"
  let ?t = "eq_broadcast ?predicted (map snd batch)"
  have len: "length (concat ?t) = length batch * length batch"
    by (simp add: length_concat_eq_broadcast gt_long_def)
  have "eval_batch model threshold batch c = Inl e \<longleftrightarrow> tensor_bool ?t = Inl e"
    by (cases "tensor_bool ?t") (simp_all add: eval_batch_def Let_def py_and_def del: map_map)
  also have "\<dots> \<longleftrightarrow> length batch \<noteq> 1 \<and> e = RuntimeError"
    unfolding tensor_bool_Inl len by simp
  finally show ?thesis .
qed

lemma eval_batch_Inr_single:
  assumes "eval_batch model threshold batch c = Inr c'"
  obtains x l where "batch = [(x, l)]"
proof -
  have "length batch = 1"
  proof (rule ccontr)
    assume "length batch \<noteq> 1"
    then have "eval_batch model threshold batch c = Inl RuntimeError"
      by (simp add: eval_batch_Inl)
    with assms show False by simp
  qed
  then obtain s where "batch = [s]"
    by (cases batch) auto
  then show thesis using that [of "fst s" "snd s"] by simp
qed

lemma eval_loop_Inl:
  "eval_loop model threshold batches c = Inl e \<longleftrightarrow>
     (\<exists>b \<in> set batches. length b \<noteq> 1) \<and> e = RuntimeError"
proof (induction batches arbitrary: c)
  case Nil
  then show ?case by simp
next
  case (Cons b bs)
  show ?case
  proof (cases "eval_batch model threshold b c")
    case (Inl e')
    then show ?thesis using eval_batch_Inl [of model threshold b c e'] by auto
  next
    case (Inr c')
    then obtain x l where "b = [(x, l)]" by (rule eval_batch_Inr_single)
    with Inr Cons.IH [of c'] show ?thesis by simp
  qed
qed

lemma eval_batch_consistent:
  assumes "eval_batch model threshold batch c = Inr c'" and "counters_consistent c"
  shows "counters_consistent c'"
proof -
  from assms(1) obtain x l where b: "batch = [(x, l)]" by (rule eval_batch_Inr_single)
  from assms show ?thesis
    unfolding b eval_batch_single by (auto simp: counters_consistent_def)
qed

lemma eval_loop_consistent:
  "eval_loop model threshold batches c = Inr c' \<Longrightarrow> counters_consistent c \<Longrightarrow>
   counters_consistent c'"
proof (induction batches arbitrary: c)
  case Nil
  then show ?case by simp
next
  case (Cons b bs)
  then show ?case
    by (cases "eval_batch model threshold b c") (auto dest: eval_batch_consistent)
qed

lemma counters0_consistent: "counters_consistent counters0"
  by (simp add: counters_consistent_def counters0_def)

lemma eval_counters_consistent:
  assumes "eval_counters lib st data_loader threshold = Inr c"
  shows "counters_consistent c"
proof (cases "batches_of lib (heap st) (draws st) data_loader")
  case (Inl e)
  with assms show ?thesis by (simp add: eval_counters_def)
next
  case (Inr batches)
  with assms show ?thesis
    by (simp add: eval_counters_def eval_loop_consistent [OF _ counters0_consistent])
qed

lemma evaluate_model_unfold:
  "evaluate_model lib st data_loader threshold =
     (case eval_counters lib st data_loader threshold of
        Inl e \<Rightarrow> Inl e
      | Inr c \<Rightarrow>
          (case metrics c of
             Inl e \<Rightarrow> Inl e
           | Inr m \<Rightarrow> Inr (m, eval_state st data_loader)))"
  by (simp add: evaluate_model_def eval_counters_def iterate_def eval_state_def Let_def
      split: sum.splits)

lemma metrics_Inl: "metrics c = Inl e \<Longrightarrow> e = ZeroDivisionError"
  by (auto simp: metrics_def py_truediv_def split: sum.splits if_splits)

lemma length_load_batch: "load_batch h d ix = Inr ss \<Longrightarrow> length ss = length ix"
  by (induction ix arbitrary: ss) (auto split: sum.splits)

lemma lengths_load_batches:
  "load_batches h d ixs = Inr bs \<Longrightarrow> map length bs = map length ixs"
  by (induction ixs arbitrary: bs) (auto split: sum.splits dest: length_load_batch)

lemma chunks_1_lengths: "\<forall>c \<in> set (chunks (Suc 0) xs). length c = Suc 0"
  by (induction xs) (simp_all add: chunks_Nil chunks_Cons_1)

lemma batches_of_size_1:
  assumes "batches_of lib h k data_loader = Inr batches" and "dl_batch_size data_loader = 1"
  shows "\<forall>b \<in> set batches. length b = 1"
proof -
  from assms obtain xs where "load_batches h (dl_dataset data_loader) (chunks (Suc 0) xs) = Inr batches"
    by (auto simp: batches_of_def Let_def)
  then have "map length batches = map length (chunks (Suc 0) xs)"
    by (rule lengths_load_batches)
  then have "set (map length batches) = set (map length (chunks (Suc 0) xs))"
    by simp
  with chunks_1_lengths [of xs] show ?thesis
    by auto
qed

lemma test_loader_batch_size:
  "dl_batch_size (snd (snd (snd (snd (fold_setup lib batch_size train_i test_i st))))) = 1"
  by (simp add: fold_setup_def Let_def split: prod.splits)

subsection \<open>The truth value of the comparison tensor\<close>

text \<open>
  C10: the expression \<open>(predicted == labels and predicted == 1)\<close> takes the truth value
  of the comparison tensor, which raises \<open>RuntimeError\<close> unless the batch holds exactly
  one sample. Whenever the loader delivers its batches, \<open>evaluate_model\<close> ends in that
  error exactly when some batch does not hold exactly one sample; a loader of batch size
  1 never makes it raise it, and the test loader of the cross-validation loop has batch
  size 1.
\<close>

theorem evaluate_model_RuntimeError_iff:
  assumes "batches_of lib (heap st) (draws st) data_loader = Inr batches"
  shows "(evaluate_model lib st data_loader threshold = Inl RuntimeError
            \<longleftrightarrow> (\<exists>b \<in> set batches. length b \<noteq> 1)) \<and>
         (dl_batch_size data_loader = 1 \<longrightarrow>
            evaluate_model lib st data_loader threshold \<noteq> Inl RuntimeError) \<and>
         dl_batch_size (snd (snd (snd (snd (fold_setup lib batch_size train_i test_i st))))) = 1"
proof -
  let ?model = "forward_eval lib (params (cancer_net st))"
  have c: "eval_counters lib st data_loader threshold = eval_loop ?model threshold batches counters0"
    using assms by (simp add: eval_counters_def)
  have iff: "evaluate_model lib st data_loader threshold = Inl RuntimeError
               \<longleftrightarrow> (\<exists>b \<in> set batches. length b \<noteq> 1)"
  proof (cases "eval_loop ?model threshold batches counters0")
    case (Inl e)
    then show ?thesis
      using eval_loop_Inl [of ?model threshold batches counters0 e]
      by (simp add: evaluate_model_unfold c)
  next
    case (Inr cs)
    then have "\<not> (\<exists>b \<in> set batches. length b \<noteq> 1)"
      using eval_loop_Inl [of ?model threshold batches counters0 RuntimeError] by simp
    moreover have "evaluate_model lib st data_loader threshold \<noteq> Inl RuntimeError"
      using Inr by (auto simp: evaluate_model_unfold c split: sum.splits dest: metrics_Inl)
    ultimately show ?thesis by simp
  qed
  moreover have "dl_batch_size data_loader = 1 \<longrightarrow>
      evaluate_model lib st data_loader threshold \<noteq> Inl RuntimeError"
    using batches_of_size_1 [OF assms] iff by auto
  ultimately show ?thesis
    using test_loader_batch_size by blast
qed

lemma toy_batches_4:
  "batches_of toy_lib (heap (toy_state [1, 0, 1, 0])) (draws (toy_state [1, 0, 1, 0]))
     \<lparr>dl_dataset = Subset dataset [2, 3], dl_batch_size = 1, dl_shuffle = False\<rparr> =
   Inr [[(Image 2 None, 1)], [(Image 3 None, 0)]]"
  by (simp add: toy_defs upt_rec chunks_Cons_1 chunks_Nil)

text \<open>The statement of C10 at a test loader over two files of a dataset of four.\<close>

theorem evaluate_model_RuntimeError_iff_witness:
  "batches_of toy_lib (heap (toy_state [1, 0, 1, 0])) (draws (toy_state [1, 0, 1, 0]))
     \<lparr>dl_dataset = Subset dataset [2, 3], dl_batch_size = 1, dl_shuffle = False\<rparr> =
   Inr [[(Image 2 None, 1)], [(Image 3 None, 0)]] \<and>
   evaluate_model toy_lib (toy_state [1, 0, 1, 0])
     \<lparr>dl_dataset = Subset dataset [2, 3], dl_batch_size = 1, dl_shuffle = False\<rparr> (3 / 10)
     \<noteq> Inl RuntimeError"
  using evaluate_model_RuntimeError_iff [OF toy_batches_4, of "3 / 10"] toy_batches_4
  by simp

subsection \<open>The count of correctly predicted positives\<close>

text \<open>
  C2: for every evaluation batch the counter \<open>predicted_positive_correct\<close> should grow
  by the number of samples whose thresholded prediction is 1 and whose label is 1.
  On a batch of two such samples (a loader of batch size 2) the count would be 2, but
  \<open>evaluate_model\<close> raises \<open>RuntimeError\<close> instead.
\<close>

theorem evaluate_model_two_sample_batch_raises:
  "batches_of toy_lib (heap (toy_state [1, 0, 1])) (draws (toy_state [1, 0, 1]))
     \<lparr>dl_dataset = Subset dataset [0, 2], dl_batch_size = 2, dl_shuffle = False\<rparr> =
   Inr [[(Image 0 None, 1), (Image 2 None, 1)]] \<and>
   pred_of (forward_eval toy_lib (params (cancer_net (toy_state [1, 0, 1])))) (3 / 10) (Image 0 None) = 1 \<and>
   pred_of (forward_eval toy_lib (params (cancer_net (toy_state [1, 0, 1])))) (3 / 10) (Image 2 None) = 1 \<and>
   evaluate_model toy_lib (toy_state [1, 0, 1])
     \<lparr>dl_dataset = Subset dataset [0, 2], dl_batch_size = 2, dl_shuffle = False\<rparr> (3 / 10)
     = Inl RuntimeError"
  by (simp add: evaluate_model_unfold toy_defs upt_rec chunks_Cons chunks_Nil tensor_defs
      pred_of_def sigmoid_ln9)

subsection \<open>Zero denominators\<close>

text \<open>
  C3 as stated fails: with no predicted positive among the evaluated samples the
  counter \<open>predicted_positive\<close> is 0 and \<open>evaluate_model\<close> raises
  \<open>ZeroDivisionError\<close>; it returns no precision at all.
\<close>

theorem evaluate_model_no_predicted_positive_counterexample:
  "eval_counters toy_lib (toy_state [1, 0])
     \<lparr>dl_dataset = Subset dataset [1], dl_batch_size = 1, dl_shuffle = False\<rparr> (3 / 10) =
     Inr \<lparr>total = 1, correct = 1, total_positive = 0, predicted_positive = 0,
          predicted_positive_correct = 0\<rparr> \<and>
   evaluate_model toy_lib (toy_state [1, 0])
     \<lparr>dl_dataset = Subset dataset [1], dl_batch_size = 1, dl_shuffle = False\<rparr> (3 / 10) =
     Inl ZeroDivisionError"
  by (simp add: evaluate_model_unfold toy_defs upt_rec chunks_Cons_1 chunks_Nil tensor_defs
      sigmoid_neg_ln9 metrics_def py_truediv_def)

text \<open>
  C3, amended: when \<open>predicted_positive\<close> is 0 at the end of the iteration,
  \<open>evaluate_model\<close> raises \<open>ZeroDivisionError\<close> and returns no tuple; likewise when
  \<open>total_positive\<close> is 0, and when precision + recall is 0.
\<close>

theorem evaluate_model_zero_denominator_raises:
  assumes "eval_counters lib st data_loader threshold = Inr c"
    and "predicted_positive c = 0 \<or> total_positive c = 0 \<or>
         real_of_int (predicted_positive_correct c) / real_of_int (predicted_positive c) +
         real_of_int (predicted_positive_correct c) / real_of_int (total_positive c) = 0"
  shows "evaluate_model lib st data_loader threshold = Inl ZeroDivisionError"
  using assms by (auto simp: evaluate_model_unfold metrics_def py_truediv_def)

lemma toy_counters_missed_positive:
  "eval_counters toy_lib (toy_state [0, 1])
     \<lparr>dl_dataset = Subset dataset [1], dl_batch_size = 1, dl_shuffle = False\<rparr> (3 / 10) =
     Inr \<lparr>total = 1, correct = 0, total_positive = 1, predicted_positive = 0,
          predicted_positive_correct = 0\<rparr>"
  by (simp add: toy_defs upt_rec chunks_Cons_1 chunks_Nil tensor_defs sigmoid_neg_ln9)

text \<open>The amended C3 on a run whose only sample is a positive predicted negative.\<close>

theorem evaluate_model_zero_denominator_raises_witness:
  "eval_counters toy_lib (toy_state [0, 1])
     \<lparr>dl_dataset = Subset dataset [1], dl_batch_size = 1, dl_shuffle = False\<rparr> (3 / 10) =
     Inr \<lparr>total = 1, correct = 0, total_positive = 1, predicted_positive = 0,
          predicted_positive_correct = 0\<rparr> \<and>
   evaluate_model toy_lib (toy_state [0, 1])
     \<lparr>dl_dataset = Subset dataset [1], dl_batch_size = 1, dl_shuffle = False\<rparr> (3 / 10) =
     Inl ZeroDivisionError"
  using evaluate_model_zero_denominator_raises [OF toy_counters_missed_positive]
    toy_counters_missed_positive
  by simp

subsection \<open>The returned tuple\<close>

text \<open>
  C6: \<open>evaluate_model\<close> returns (accuracy, precision, recall, F1) in this order, with
  accuracy = correct / total, precision = predicted_positive_correct /
  predicted_positive, recall = predicted_positive_correct / total_positive and
  F1 = 2 * precision * recall / (precision + recall), computed from the counters at the
  end of the loop. It does return this tuple whenever the loop ends with at least one
  correctly predicted positive; whenever it returns, the tuple is that one, accuracy
  lies between 0 and 1, and total = 10 with correct = 8 gives accuracy 0.8.
\<close>

theorem evaluate_model_metrics:
  "(eval_counters lib st data_loader threshold = Inr c \<and> 0 < predicted_positive_correct c \<longrightarrow>
      evaluate_model lib st data_loader threshold =
        Inr ((real_of_int (correct c) / real_of_int (total c),
              real_of_int (predicted_positive_correct c) / real_of_int (predicted_positive c),
              real_of_int (predicted_positive_correct c) / real_of_int (total_positive c),
              2 * (real_of_int (predicted_positive_correct c) / real_of_int (predicted_positive c))
                * (real_of_int (predicted_positive_correct c) / real_of_int (total_positive c))
                / (real_of_int (predicted_positive_correct c) / real_of_int (predicted_positive c)
                   + real_of_int (predicted_positive_correct c) / real_of_int (total_positive c))),
             eval_state st data_loader)) \<and>
   (evaluate_model lib st data_loader threshold = Inr ((accuracy, precision, recall, f1_score), st') \<longrightarrow>
      (\<exists>c. eval_counters lib st data_loader threshold = Inr c \<and>
           accuracy = real_of_int (correct c) / real_of_int (total c) \<and>
           precision = real_of_int (predicted_positive_correct c) / real_of_int (predicted_positive c) \<and>
           recall = real_of_int (predicted_positive_correct c) / real_of_int (total_positive c) \<and>
           f1_score = 2 * precision * recall / (precision + recall) \<and>
           0 \<le> accuracy \<and> accuracy \<le> 1 \<and>
           (total c = 10 \<and> correct c = 8 \<longrightarrow> accuracy = 8 / 10)))"
proof (intro conjI impI)
  assume a: "eval_counters lib st data_loader threshold = Inr c \<and> 0 < predicted_positive_correct c"
  then have cons: "counters_consistent c"
    by (auto dest: eval_counters_consistent)
  let ?ppc = "real_of_int (predicted_positive_correct c)"
  from a cons have pos: "0 < predicted_positive c" "0 < total_positive c" "0 < total c"
    by (auto simp: counters_consistent_def)
  then have "0 < ?ppc / real_of_int (predicted_positive c)" "0 < ?ppc / real_of_int (total_positive c)"
    using a by simp_all
  then have "?ppc / real_of_int (predicted_positive c) + ?ppc / real_of_int (total_positive c) \<noteq> 0"
    by linarith
  with a pos show "evaluate_model lib st data_loader threshold =
        Inr ((real_of_int (correct c) / real_of_int (total c),
              real_of_int (predicted_positive_correct c) / real_of_int (predicted_positive c),
              real_of_int (predicted_positive_correct c) / real_of_int (total_positive c),
              2 * (real_of_int (predicted_positive_correct c) / real_of_int (predicted_positive c))
                * (real_of_int (predicted_positive_correct c) / real_of_int (total_positive c))
                / (real_of_int (predicted_positive_correct c) / real_of_int (predicted_positive c)
                   + real_of_int (predicted_positive_correct c) / real_of_int (total_positive c))),
             eval_state st data_loader)"
    by (simp add: evaluate_model_unfold metrics_def py_truediv_def)
next
  assume r: "evaluate_model lib st data_loader threshold =
      Inr ((accuracy, precision, recall, f1_score), st')"
  then obtain c where c: "eval_counters lib st data_loader threshold = Inr c"
    and m: "metrics c = Inr (accuracy, precision, recall, f1_score)"
    by (auto simp: evaluate_model_unfold split: sum.splits)
  from c have cons: "counters_consistent c"
    by (rule eval_counters_consistent)
  from m have t: "total c \<noteq> 0"
    and eqs: "accuracy = real_of_int (correct c) / real_of_int (total c)"
      "precision = real_of_int (predicted_positive_correct c) / real_of_int (predicted_positive c)"
      "recall = real_of_int (predicted_positive_correct c) / real_of_int (total_positive c)"
      "f1_score = 2 * precision * recall / (precision + recall)"
    by (auto simp: metrics_def py_truediv_def split: if_splits)
  from cons t have "0 < total c" "0 \<le> correct c" "correct c \<le> total c"
    by (auto simp: counters_consistent_def)
  then have "0 \<le> accuracy" "accuracy \<le> 1"
    unfolding eqs by simp_all
  moreover have "total c = 10 \<and> correct c = 8 \<longrightarrow> accuracy = 8 / 10"
    unfolding eqs by simp
  ultimately show "\<exists>c. eval_counters lib st data_loader threshold = Inr c \<and>
           accuracy = real_of_int (correct c) / real_of_int (total c) \<and>
           precision = real_of_int (predicted_positive_correct c) / real_of_int (predicted_positive c) \<and>
           recall = real_of_int (predicted_positive_correct c) / real_of_int (total_positive c) \<and>
           f1_score = 2 * precision * recall / (precision + recall) \<and>
           0 \<le> accuracy \<and> accuracy \<le> 1 \<and>
           (total c = 10 \<and> correct c = 8 \<longrightarrow> accuracy = 8 / 10)"
    using c eqs by blast
qed

lemma toy_counters_10:
  "eval_counters toy_lib (toy_state [1, 0, 1, 0, 1, 0, 1, 0, 0, 1])
     \<lparr>dl_dataset = ImageFolder dataset, dl_batch_size = 1, dl_shuffle = False\<rparr> (3 / 10) =
   Inr \<lparr>total = 10, correct = 8, total_positive = 5, predicted_positive = 5,
        predicted_positive_correct = 4\<rparr>"
  apply (simp add: toy_defs upt_rec chunks_Cons_1 chunks_Nil)
  apply (simp add: tensor_defs sigmoid_ln9 sigmoid_neg_ln9)
  done

text \<open>C6 on a run over ten samples of which eight are classified correctly.\<close>

theorem evaluate_model_metrics_witness:
  "eval_counters toy_lib (toy_state [1, 0, 1, 0, 1, 0, 1, 0, 0, 1])
     \<lparr>dl_dataset = ImageFolder dataset, dl_batch_size = 1, dl_shuffle = False\<rparr> (3 / 10) =
   Inr \<lparr>total = 10, correct = 8, total_positive = 5, predicted_positive = 5,
        predicted_positive_correct = 4\<rparr> \<and>
   evaluate_model toy_lib (toy_state [1, 0, 1, 0, 1, 0, 1, 0, 0, 1])
     \<lparr>dl_dataset = ImageFolder dataset, dl_batch_size = 1, dl_shuffle = False\<rparr> (3 / 10) =
   Inr ((8 / 10, 4 / 5, 4 / 5, 4 / 5),
        eval_state (toy_state [1, 0, 1, 0, 1, 0, 1, 0, 0, 1])
          \<lparr>dl_dataset = ImageFolder dataset, dl_batch_size = 1, dl_shuffle = False\<rparr>)"
  using evaluate_model_metrics [of toy_lib "toy_state [1, 0, 1, 0, 1, 0, 1, 0, 0, 1]"
      "\<lparr>dl_dataset = ImageFolder dataset, dl_batch_size = 1, dl_shuffle = False\<rparr>" "3 / 10"
      "\<lparr>total = 10, correct = 8, total_positive = 5, predicted_positive = 5,
        predicted_positive_correct = 4\<rparr>"]
    toy_counters_10
  by simp

section \<open>Properties of the k-fold splitter\<close>

lemma sum_list_fold_sizes_aux:
  "m \<le> k \<Longrightarrow> sum_list (map (\<lambda>i. q + (if i < m then 1 else 0)) [0..<k]) = k * q + m"
proof (induction k arbitrary: m)
  case 0
  then show ?case by simp
next
  case (Suc k)
  show ?case
  proof (cases "m \<le> k")
    case True
    with Suc.IH [of m] show ?thesis by simp
  next
    case False
    with Suc.prems have m: "m = Suc k" by simp
    have "map (\<lambda>i. q + (if i < Suc k then 1 else 0)) [0..<k] = map (\<lambda>i. q + 1) [0..<k]"
      by (rule map_cong) simp_all
    then have "sum_list (map (\<lambda>i. q + (if i < Suc k then 1 else 0)) [0..<k]) =
        sum_list (map (\<lambda>i. q + 1) [0..<k])"
      by (rule arg_cong)
    also have "\<dots> = k * (q + 1)"
      by (simp add: sum_list_triv)
    finally show ?thesis unfolding m by simp
  qed
qed

lemma sum_list_fold_sizes: "0 < k \<Longrightarrow> sum_list (fold_sizes n k) = n"
  unfolding fold_sizes_def
  using sum_list_fold_sizes_aux [of "n mod k" k "n div k"] by simp

lemma length_fold_sizes: "length (fold_sizes n k) = k"
  by (simp add: fold_sizes_def)

lemma length_test_chunks: "length (test_chunks sizes xs) = length sizes"
  by (induction sizes arbitrary: xs) simp_all

lemma concat_test_chunks: "concat (test_chunks sizes xs) = take (sum_list sizes) xs"
  by (induction sizes arbitrary: xs) (simp_all add: take_add)

lemma distinct_concat_nth_disjoint:
  "distinct (concat xss) \<Longrightarrow> i < j \<Longrightarrow> j < length xss \<Longrightarrow> set (xss ! i) \<inter> set (xss ! j) = {}"
proof (induction xss arbitrary: i j)
  case Nil
  then show ?case by simp
next
  case (Cons xs xss)
  show ?case
  proof (cases i)
    case 0
    with Cons.prems obtain j' where j: "j = Suc j'" "j' < length xss"
      by (cases j) auto
    then have "xss ! j' \<in> set xss" by simp
    with Cons.prems(1) have "set xs \<inter> set (xss ! j') = {}" by auto
    with 0 j show ?thesis by simp
  next
    case (Suc i')
    with Cons.prems obtain j' where j: "j = Suc j'" "i' < j'" "j' < length xss"
      by (cases j) auto
    with Cons.IH [of i' j'] Cons.prems(1) Suc show ?thesis by simp
  qed
qed

lemma mset_mask:
  assumes "distinct c" and "set c \<subseteq> {0..<n}"
  shows "mset (filter (\<lambda>i. i \<in> set c) [0..<n]) = mset c"
proof -
  have "set (filter (\<lambda>i. i \<in> set c) [0..<n]) = set c"
    using assms(2) by auto
  moreover have "distinct (filter (\<lambda>i. i \<in> set c) [0..<n])"
    by simp
  ultimately show ?thesis
    using assms(1) set_eq_iff_mset_eq_distinct by blast
qed

lemma set_mask: "set c \<subseteq> {0..<n} \<Longrightarrow> set (filter (\<lambda>i. i \<in> set c) [0..<n]) = set c"
  by auto

lemma mset_concat_masks:
  "distinct (concat cs) \<Longrightarrow> set (concat cs) \<subseteq> {0..<n} \<Longrightarrow>
   mset (concat (map (\<lambda>c. filter (\<lambda>i. i \<in> set c) [0..<n]) cs)) = mset (concat cs)"
proof (induction cs)
  case Nil
  then show ?case by simp
next
  case (Cons c cs)
  then have "mset (filter (\<lambda>i. i \<in> set c) [0..<n]) = mset c"
    by (intro mset_mask) auto
  moreover from Cons have
    "mset (concat (map (\<lambda>c. filter (\<lambda>i. i \<in> set c) [0..<n]) cs)) = mset (concat cs)"
    by auto
  ultimately show ?case
    by (simp del: mset_filter)
qed

text \<open>
  C5: for every dataset (of \<open>n\<close> samples, whatever the shuffle made of its index array)
  and every K of at least 2, the split gives K folds whose test-index sets are pairwise
  disjoint and whose union is the full index set; every index is in exactly one test
  set.
\<close>

theorem KFold_split_partition:
  assumes "2 \<le> n_splits" and "mset indices = mset [0..<n]"
  shows "length (KFold_split n_splits indices) = n_splits \<and>
         (\<forall>i < n_splits. \<forall>j < n_splits. i \<noteq> j \<longrightarrow>
            set (snd (KFold_split n_splits indices ! i)) \<inter>
            set (snd (KFold_split n_splits indices ! j)) = {}) \<and>
         (\<Union>s \<in> set (KFold_split n_splits indices). set (snd s)) = {0..<n} \<and>
         mset (concat (map snd (KFold_split n_splits indices))) = mset [0..<n]"
proof -
  define cs where "cs = test_chunks (fold_sizes n n_splits) indices"
  from assms(2) have len: "length indices = n"
    by (metis length_upt mset_eq_length minus_nat.diff_0)
  from assms(2) have dist: "distinct indices"
    by (metis distinct_upt mset_eq_imp_distinct_iff)
  from assms(2) have set_ix: "set indices = {0..<n}"
    by (metis atLeastLessThan_upt mset_eq_setD)
  have split: "KFold_split n_splits indices =
      map (\<lambda>c. (filter (\<lambda>i. i \<notin> set c) [0..<n], filter (\<lambda>i. i \<in> set c) [0..<n])) cs"
    by (simp add: KFold_split_def cs_def len)
  have tests: "map snd (KFold_split n_splits indices) = map (\<lambda>c. filter (\<lambda>i. i \<in> set c) [0..<n]) cs"
    by (simp add: split comp_def)
  have cat: "concat cs = indices"
    using assms(1) by (simp add: cs_def concat_test_chunks sum_list_fold_sizes len)
  have lcs: "length cs = n_splits"
    by (simp add: cs_def length_test_chunks length_fold_sizes)
  have sub: "\<And>c. c \<in> set cs \<Longrightarrow> set c \<subseteq> {0..<n}"
    using cat set_ix by (metis Sup_upper image_eqI set_concat)
  have 1: "length (KFold_split n_splits indices) = n_splits"
    by (simp add: split lcs)
  have disj: "set (snd (KFold_split n_splits indices ! i)) \<inter>
              set (snd (KFold_split n_splits indices ! j)) = {}"
    if "i < j" "j < n_splits" for i j
  proof -
    from that lcs have ij: "i < length cs" "j < length cs" by simp_all
    have "set (cs ! i) \<inter> set (cs ! j) = {}"
      using distinct_concat_nth_disjoint [of cs i j] that dist cat lcs by simp
    moreover have "set (cs ! i) \<subseteq> {0..<n}" "set (cs ! j) \<subseteq> {0..<n}"
      using sub ij by simp_all
    ultimately show ?thesis
      using ij by (simp add: split set_mask del: set_filter)
  qed
  have 2: "\<forall>i < n_splits. \<forall>j < n_splits. i \<noteq> j \<longrightarrow>
            set (snd (KFold_split n_splits indices ! i)) \<inter>
            set (snd (KFold_split n_splits indices ! j)) = {}"
  proof (intro allI impI)
    fix i j assume "i < n_splits" "j < n_splits" "i \<noteq> j"
    then consider "i < j" | "j < i" by linarith
    then show "set (snd (KFold_split n_splits indices ! i)) \<inter>
               set (snd (KFold_split n_splits indices ! j)) = {}"
      using disj [of i j] disj [of j i] \<open>i < n_splits\<close> \<open>j < n_splits\<close> by (cases) auto
  qed
  have 4: "mset (concat (map snd (KFold_split n_splits indices))) = mset [0..<n]"
    unfolding tests using mset_concat_masks [of cs n] dist cat set_ix assms(2) by simp
  have "(\<Union>s \<in> set (KFold_split n_splits indices). set (snd s)) =
        set (concat (map snd (KFold_split n_splits indices)))"
    by simp
  also have "\<dots> = set_mset (mset (concat (map snd (KFold_split n_splits indices))))"
    by simp
  also have "\<dots> = {0..<n}"
    unfolding 4 by simp
  finally have 3: "(\<Union>s \<in> set (KFold_split n_splits indices). set (snd s)) = {0..<n}" .
  from 1 2 3 4 show ?thesis by blast
qed

lemma toy_split:
  "KFold_split 2 [3, 2, 1, 0] = [([0, 1], [2, 3]), ([2, 3], [0, 1])]"
  by code_simp

lemma toy_upt4: "[0..<4::nat] = [0, 1, 2, 3]"
  by (simp add: upt_rec)

lemma toy_indices: "mset [3, 2, 1, 0] = mset [0..<4::nat]"
  unfolding toy_upt4 by (simp add: add_mset_commute)

text \<open>C5 on four samples shuffled into reverse order and split in two.\<close>

theorem KFold_split_partition_witness:
  "mset [3, 2, 1, 0] = mset [0..<4::nat] \<and>
   KFold_split 2 [3, 2, 1, 0] = [([0, 1], [2, 3]), ([2, 3], [0, 1])] \<and>
   length (KFold_split 2 [3, 2, 1, 0]) = 2 \<and>
   mset (concat (map snd (KFold_split 2 [3, 2, 1, 0]))) = mset [0..<4::nat]"
proof -
  have le: "(2::nat) \<le> 2" by simp
  note t = KFold_split_partition [OF le toy_indices]
  from t have a: "length (KFold_split 2 [3, 2, 1, 0]) = 2"
    by (rule conjunct1)
  from t have b: "mset (concat (map snd (KFold_split 2 [3, 2, 1, 0]))) = mset [0..<4::nat]"
    by (elim conjE)
  show ?thesis
    using toy_indices toy_split a b by (intro conjI)
qed

section \<open>Properties of \<open>train_model\<close>\<close>

lemma steps_append: "steps (xs @ ys) = steps xs @ steps ys"
  by (simp add: steps_def)

lemma steps_batch_calls: "steps (batch_calls opt_id sched_id batch) = batch_calls opt_id sched_id batch"
  by (simp add: steps_def batch_calls_def)

lemma steps_progress:
  "steps (Progress current_fold epoch num_epochs i len current_loss # evs) = steps evs"
  by (simp add: steps_def)

lemma unchanged_refl: "unchanged st st"
  by (simp add: unchanged_def)

lemma unchanged_trans: "unchanged st st' \<Longrightarrow> unchanged st' st'' \<Longrightarrow> unchanged st st''"
  by (simp add: unchanged_def)

lemma train_step_props:
  assumes "train_step lib batch (st, (opt_id, opt), (sched_id, sched)) = (loss, st', opt', sched')"
  shows "unchanged st st'" and "draws st' = draws st"
    and "calls st' = calls st @ batch_calls opt_id sched_id batch"
    and "fst opt' = opt_id" and "fst sched' = sched_id"
  using assms by (auto simp: train_step_def Let_def batch_calls_def unchanged_def)

lemma train_batches_props:
  assumes "train_batches lib current_fold epoch num_epochs len batches i current_loss
             (st, (opt_id, opt), (sched_id, sched)) = (st', opt', sched')"
  shows "unchanged st st' \<and> draws st' = draws st \<and> fst opt' = opt_id \<and> fst sched' = sched_id \<and>
         (\<exists>new. calls st' = calls st @ new \<and>
                steps new = concat (map (batch_calls opt_id sched_id) batches))"
  using assms
proof (induction batches arbitrary: i current_loss st opt sched)
  case Nil
  then show ?case by (auto simp: unchanged_refl steps_def)
next
  case (Cons batch rest)
  obtain loss st1 opt1 sched1 where step:
    "train_step lib batch (st, (opt_id, opt), (sched_id, sched)) = (loss, st1, opt1, sched1)"
    by (metis prod_cases4)
  note p = train_step_props [OF step]
  obtain o1 s1 where ids: "opt1 = (opt_id, o1)" "sched1 = (sched_id, s1)"
    using p(4,5) by (metis prod.collapse)
  show ?case
  proof (cases "i mod 10 = 9 \<or> int i = int len - 1")
    case True
    let ?p = "Progress (map_option Suc current_fold) (epoch + 1) num_epochs (i + 1) len (current_loss + loss)"
    let ?st2 = "st1\<lparr>calls := calls st1 @ [?p]\<rparr>"
    from Cons.prems True step ids have
      "train_batches lib current_fold epoch num_epochs len rest (i + 1) 0
         (?st2, (opt_id, o1), (sched_id, s1)) = (st', opt', sched')"
      by (simp add: Let_def)
    from Cons.IH [OF this] obtain new where ih:
      "unchanged ?st2 st'" "draws st' = draws ?st2" "fst opt' = opt_id" "fst sched' = sched_id"
      "calls st' = calls ?st2 @ new" "steps new = concat (map (batch_calls opt_id sched_id) rest)"
      by blast
    have "unchanged st st'"
      using p(1) ih(1) by (simp add: unchanged_def)
    moreover have "calls st' = calls st @ (batch_calls opt_id sched_id batch @ [?p] @ new)"
      using ih(5) p(3) by simp
    moreover have "steps (batch_calls opt_id sched_id batch @ [?p] @ new) =
        concat (map (batch_calls opt_id sched_id) (batch # rest))"
      by (simp add: steps_append steps_batch_calls ih(6) steps_progress)
    ultimately show ?thesis
      using ih(2,3,4) p(2) by auto
  next
    case False
    from Cons.prems False step ids have
      "train_batches lib current_fold epoch num_epochs len rest (i + 1) (current_loss + loss)
         (st1, (opt_id, o1), (sched_id, s1)) = (st', opt', sched')"
      by (simp add: Let_def)
    from Cons.IH [OF this] obtain new where ih:
      "unchanged st1 st'" "draws st' = draws st1" "fst opt' = opt_id" "fst sched' = sched_id"
      "calls st' = calls st1 @ new" "steps new = concat (map (batch_calls opt_id sched_id) rest)"
      by blast
    have "unchanged st st'"
      using p(1) ih(1) by (rule unchanged_trans)
    moreover have "calls st' = calls st @ (batch_calls opt_id sched_id batch @ new)"
      using ih(5) p(3) by simp
    moreover have "steps (batch_calls opt_id sched_id batch @ new) =
        concat (map (batch_calls opt_id sched_id) (batch # rest))"
      by (simp add: steps_append steps_batch_calls ih(6))
    ultimately show ?thesis
      using ih(2,3,4) p(2) by auto
  qed
qed


lemma iterate_props:
  assumes "iterate lib st data_loader = Inr (batches, st')"
  shows "batches_of lib (heap st) (draws st) data_loader = Inr batches"
    and "unchanged st st'" and "calls st' = calls st" and "cancer_net st' = cancer_net st"
    and "draws st' = draws st + (if dl_shuffle data_loader then 1 else 0)"
  using assms by (auto simp: iterate_def unchanged_def split: sum.splits if_splits)

lemma train_epochs_props:
  assumes "\<forall>k < length epochs.
             batches_of lib (heap st) (draws st + (if dl_shuffle data_loader then k else 0))
               data_loader = Inr (passes k)"
  shows "\<exists>st' opt' sched'.
           train_epochs lib data_loader current_fold num_epochs epochs
             (st, (opt_id, opt), (sched_id, sched)) = Inr (st', (opt_id, opt'), (sched_id, sched')) \<and>
           unchanged st st' \<and>
           draws st' = draws st + (if dl_shuffle data_loader then length epochs else 0) \<and>
           (\<exists>new. calls st' = calls st @ new \<and>
                  steps new =
                    concat (map (\<lambda>k. concat (map (batch_calls opt_id sched_id) (passes k)))
                      [0..<length epochs]))"
  using assms
proof (induction epochs arbitrary: st opt sched passes)
  case Nil
  then show ?case by (simp add: unchanged_refl steps_def)
next
  case (Cons epoch rest)
  let ?st0 = "if dl_shuffle data_loader then st\<lparr>draws := draws st + 1\<rparr> else st"
  from Cons.prems have b0: "batches_of lib (heap st) (draws st) data_loader = Inr (passes 0)"
    by (cases "dl_shuffle data_loader") auto
  then have it: "iterate lib st data_loader = Inr (passes 0, ?st0)"
    by (simp add: iterate_def)
  obtain st1 opt1 sched1 where tb:
    "train_batches lib current_fold epoch num_epochs (length (passes 0)) (passes 0) 0 0
       (?st0, (opt_id, opt), (sched_id, sched)) = (st1, opt1, sched1)"
    by (metis prod_cases3)
  from train_batches_props [OF tb] obtain new1 where p1:
    "unchanged ?st0 st1" "draws st1 = draws ?st0" "fst opt1 = opt_id" "fst sched1 = sched_id"
    "calls st1 = calls ?st0 @ new1"
    "steps new1 = concat (map (batch_calls opt_id sched_id) (passes 0))"
    by blast
  obtain o1 s1 where ids: "opt1 = (opt_id, o1)" "sched1 = (sched_id, s1)"
    using p1(3,4) by (metis prod.collapse)
  have h1: "heap st1 = heap st"
    using p1(1) by (simp add: unchanged_def split: if_splits)
  have d1: "draws st1 = draws st + (if dl_shuffle data_loader then 1 else 0)"
    using p1(2) by simp
  have "\<forall>k < length rest.
          batches_of lib (heap st1) (draws st1 + (if dl_shuffle data_loader then k else 0))
            data_loader = Inr (passes (Suc k))"
  proof (intro allI impI)
    fix k assume "k < length rest"
    then have "Suc k < length (epoch # rest)" by simp
    with Cons.prems have
      "batches_of lib (heap st) (draws st + (if dl_shuffle data_loader then Suc k else 0))
         data_loader = Inr (passes (Suc k))"
      by blast
    then show "batches_of lib (heap st1) (draws st1 + (if dl_shuffle data_loader then k else 0))
        data_loader = Inr (passes (Suc k))"
      by (cases "dl_shuffle data_loader") (simp_all add: h1 d1)
  qed
  from Cons.IH [OF this, of o1 s1] obtain st' opt' sched' new2 where ih:
    "train_epochs lib data_loader current_fold num_epochs rest
       (st1, (opt_id, o1), (sched_id, s1)) = Inr (st', (opt_id, opt'), (sched_id, sched'))"
    "unchanged st1 st'"
    "draws st' = draws st1 + (if dl_shuffle data_loader then length rest else 0)"
    "calls st' = calls st1 @ new2"
    "steps new2 = concat (map (\<lambda>k. concat (map (batch_calls opt_id sched_id) (passes (Suc k))))
        [0..<length rest])"
    by blast
  have run: "train_epochs lib data_loader current_fold num_epochs (epoch # rest)
      (st, (opt_id, opt), (sched_id, sched)) = Inr (st', (opt_id, opt'), (sched_id, sched'))"
    using it tb ids ih(1) by simp
  have un: "unchanged st st'"
    using p1(1) ih(2) by (simp add: unchanged_def split: if_splits)
  have dr: "draws st' = draws st + (if dl_shuffle data_loader then length (epoch # rest) else 0)"
    using ih(3) d1 by simp
  have ca: "calls st' = calls st @ (new1 @ new2)"
    using ih(4) p1(5) by (simp split: if_splits)
  have "[0..<length (epoch # rest)] = 0 # map Suc [0..<length rest]"
    by (simp add: upt_conv_Cons map_Suc_upt del: upt_Suc)
  then have st: "steps (new1 @ new2) =
      concat (map (\<lambda>k. concat (map (batch_calls opt_id sched_id) (passes k)))
        [0..<length (epoch # rest)])"
    by (simp add: steps_append p1(6) ih(5) comp_def del: upt_Suc)
  from run un dr ca st show ?case by blast
qed

lemma train_epochs_Inr_passes:
  assumes "train_epochs lib data_loader current_fold num_epochs epochs
             (st, (opt_id, opt), (sched_id, sched)) = Inr r"
  shows "\<exists>passes. \<forall>k < length epochs.
           batches_of lib (heap st) (draws st + (if dl_shuffle data_loader then k else 0))
             data_loader = Inr (passes k)"
  using assms
proof (induction epochs arbitrary: st opt sched)
  case Nil
  then show ?case by simp
next
  case (Cons epoch rest)
  from Cons.prems obtain batches st0 where it: "iterate lib st data_loader = Inr (batches, st0)"
    by (auto split: sum.splits)
  note i = iterate_props [OF it]
  obtain st1 opt1 sched1 where tb:
    "train_batches lib current_fold epoch num_epochs (length batches) batches 0 0
       (st0, (opt_id, opt), (sched_id, sched)) = (st1, opt1, sched1)"
    by (metis prod_cases3)
  from train_batches_props [OF tb] have p1:
    "unchanged st0 st1" "draws st1 = draws st0" "fst opt1 = opt_id" "fst sched1 = sched_id"
    by blast+
  obtain o1 s1 where ids: "opt1 = (opt_id, o1)" "sched1 = (sched_id, s1)"
    using p1(3,4) by (metis prod.collapse)
  from Cons.prems it tb ids have
    "train_epochs lib data_loader current_fold num_epochs rest
       (st1, (opt_id, o1), (sched_id, s1)) = Inr r"
    by simp
  from Cons.IH [OF this] obtain passes' where ih:
    "\<forall>k < length rest.
       batches_of lib (heap st1) (draws st1 + (if dl_shuffle data_loader then k else 0))
         data_loader = Inr (passes' k)"
    by blast
  have h1: "heap st1 = heap st"
    using p1(1) i(2) by (simp add: unchanged_def)
  have d1: "draws st1 = draws st + (if dl_shuffle data_loader then 1 else 0)"
    using p1(2) i(5) by simp
  let ?passes = "\<lambda>k. case k of 0 \<Rightarrow> batches | Suc j \<Rightarrow> passes' j"
  have "batches_of lib (heap st) (draws st + (if dl_shuffle data_loader then k else 0))
          data_loader = Inr (?passes k)" if "k < length (epoch # rest)" for k
  proof (cases k)
    case 0
    then show ?thesis using i(1) by simp
  next
    case (Suc j)
    with that have "j < length rest" by simp
    with ih have "batches_of lib (heap st1) (draws st1 + (if dl_shuffle data_loader then j else 0))
        data_loader = Inr (passes' j)"
      by blast
    then show ?thesis
      unfolding Suc by (cases "dl_shuffle data_loader") (simp_all add: h1 d1)
  qed
  then show ?case by blast
qed

lemma train_model_Inr_passes:
  assumes "train_model lib st data_loader (opt_id, opt) (sched_id, sched) current_fold num_epochs =
             Inr r"
  shows "\<exists>passes. \<forall>epoch < num_epochs.
           batches_of lib (heap st) (draws st + (if dl_shuffle data_loader then epoch else 0))
             data_loader = Inr (passes epoch)"
proof -
  let ?st = "st\<lparr>cancer_net := (cancer_net st)\<lparr>training := True\<rparr>, calls := calls st @ [ModelTrain]\<rparr>"
  from assms obtain r' where
    "train_epochs lib data_loader current_fold num_epochs [0..<num_epochs]
       (?st, (opt_id, opt), (sched_id, sched)) = Inr r'"
    by (auto simp: train_model_def Let_def split: sum.splits)
  from train_epochs_Inr_passes [OF this] show ?thesis by simp
qed

lemma count_in_steps:
  "\<not> is_progress e \<Longrightarrow> length (filter (\<lambda>x. x = e) evs) = length (filter (\<lambda>x. x = e) (steps evs))"
  by (induction evs) (auto simp: steps_def)

lemma count_batch_calls:
  "length (filter (\<lambda>x. x = OptimizerStep opt_id) (batch_calls opt_id sched_id batch)) = 1"
  "length (filter (\<lambda>x. x = SchedulerStep sched_id) (batch_calls opt_id sched_id batch)) = 1"
  by (simp_all add: batch_calls_def)

lemma count_concat:
  "length (filter P (concat (map f xs))) = sum_list (map (\<lambda>x. length (filter P (f x))) xs)"
  by (induction xs) simp_all

lemma train_model_run:
  assumes "\<forall>epoch < num_epochs.
             batches_of lib (heap st) (draws st + (if dl_shuffle data_loader then epoch else 0))
               data_loader = Inr (passes epoch)"
  shows "\<exists>st' opt' sched' new.
           train_model lib st data_loader (opt_id, opt) (sched_id, sched) current_fold num_epochs =
             Inr (st', (opt_id, opt'), (sched_id, sched')) \<and>
           unchanged st st' \<and>
           draws st' = draws st + (if dl_shuffle data_loader then num_epochs else 0) \<and>
           calls st' = calls st @ new \<and>
           steps new =
             ModelTrain #
             concat (map (\<lambda>epoch. concat (map (batch_calls opt_id sched_id) (passes epoch)))
               [0..<num_epochs]) @
             [TrainingComplete]"
proof -
  let ?st = "st\<lparr>cancer_net := (cancer_net st)\<lparr>training := True\<rparr>, calls := calls st @ [ModelTrain]\<rparr>"
  have "\<forall>k < length [0..<num_epochs].
          batches_of lib (heap ?st) (draws ?st + (if dl_shuffle data_loader then k else 0))
            data_loader = Inr (passes k)"
    using assms by simp
  from train_epochs_props [OF this, of current_fold num_epochs opt_id opt sched_id sched]
  obtain st1 opt' sched' new1 where e:
    "train_epochs lib data_loader current_fold num_epochs [0..<num_epochs]
       (?st, (opt_id, opt), (sched_id, sched)) = Inr (st1, (opt_id, opt'), (sched_id, sched'))"
    "unchanged ?st st1"
    "draws st1 = draws ?st + (if dl_shuffle data_loader then length [0..<num_epochs] else 0)"
    "calls st1 = calls ?st @ new1"
    "steps new1 = concat (map (\<lambda>k. concat (map (batch_calls opt_id sched_id) (passes k)))
        [0..<length [0..<num_epochs]])"
    by blast
  let ?st' = "st1\<lparr>calls := calls st1 @ [TrainingComplete]\<rparr>"
  have "train_model lib st data_loader (opt_id, opt) (sched_id, sched) current_fold num_epochs =
      Inr (?st', (opt_id, opt'), (sched_id, sched'))"
    using e(1) by (simp add: train_model_def Let_def)
  moreover have "unchanged st ?st'"
    using e(2) by (simp add: unchanged_def)
  moreover have "draws ?st' = draws st + (if dl_shuffle data_loader then num_epochs else 0)"
    using e(3) by simp
  moreover have "calls ?st' = calls st @ ([ModelTrain] @ new1 @ [TrainingComplete])"
    using e(4) by simp
  moreover have "steps ([ModelTrain] @ new1 @ [TrainingComplete]) =
      ModelTrain #
      concat (map (\<lambda>epoch. concat (map (batch_calls opt_id sched_id) (passes epoch)))
        [0..<num_epochs]) @ [TrainingComplete]"
    using e(5) by (simp add: steps_append) (simp add: steps_def)
  ultimately show ?thesis by blast
qed

subsection \<open>What the batches do to the network, the optimizer and the scheduler\<close>

lemma printed_loss_append: "printed_loss (xs @ ys) = printed_loss xs + printed_loss ys"
  by (simp add: printed_loss_def)

lemma printed_loss_batch_calls: "printed_loss (batch_calls opt_id sched_id batch) = 0"
  by (simp add: printed_loss_def batch_calls_def)

lemma train_step_effect:
  assumes "train_step lib batch (st, (opt_id, opt), (sched_id, sched)) = (loss, st', opt', sched')"
  shows "(cancer_net st', snd opt', snd sched') = batch_effect lib batch (cancer_net st, opt, sched)"
    and "loss = batch_loss lib batch (cancer_net st, opt, sched)"
  using assms by (auto simp: train_step_def batch_effect_def batch_loss_def Let_def)

lemma train_batches_effect:
  assumes "train_batches lib current_fold epoch num_epochs len batches i current_loss
             (st, (opt_id, opt), (sched_id, sched)) = (st', opt', sched')"
  shows "(cancer_net st', snd opt', snd sched') =
           foldl (\<lambda>w b. batch_effect lib b w) (cancer_net st, opt, sched) batches"
  using assms
proof (induction batches arbitrary: i current_loss st opt sched)
  case Nil
  then show ?case by auto
next
  case (Cons batch rest)
  obtain loss st1 opt1 sched1 where step:
    "train_step lib batch (st, (opt_id, opt), (sched_id, sched)) = (loss, st1, opt1, sched1)"
    by (metis prod_cases4)
  note p = train_step_props [OF step]
  note e = train_step_effect [OF step]
  obtain o1 s1 where ids: "opt1 = (opt_id, o1)" "sched1 = (sched_id, s1)"
    using p(4,5) by (metis prod.collapse)
  let ?p = "Progress (map_option Suc current_fold) (epoch + 1) num_epochs (i + 1) len (current_loss + loss)"
  have "\<exists>st2 j cl. cancer_net st2 = cancer_net st1 \<and>
      train_batches lib current_fold epoch num_epochs len rest j cl
        (st2, (opt_id, o1), (sched_id, s1)) = (st', opt', sched')"
  proof (cases "i mod 10 = 9 \<or> int i = int len - 1")
    case True
    with Cons.prems step ids have
      "train_batches lib current_fold epoch num_epochs len rest (i + 1) 0
         (st1\<lparr>calls := calls st1 @ [?p]\<rparr>, (opt_id, o1), (sched_id, s1)) = (st', opt', sched')"
      by (simp add: Let_def)
    moreover have "cancer_net (st1\<lparr>calls := calls st1 @ [?p]\<rparr>) = cancer_net st1"
      by simp
    ultimately show ?thesis by blast
  next
    case False
    with Cons.prems step ids have
      "train_batches lib current_fold epoch num_epochs len rest (i + 1) (current_loss + loss)
         (st1, (opt_id, o1), (sched_id, s1)) = (st', opt', sched')"
      by (simp add: Let_def)
    then show ?thesis by blast
  qed
  then obtain st2 j cl where c: "cancer_net st2 = cancer_net st1"
    and t: "train_batches lib current_fold epoch num_epochs len rest j cl
        (st2, (opt_id, o1), (sched_id, s1)) = (st', opt', sched')"
    by blast
  from Cons.IH [OF t] have
    "(cancer_net st', snd opt', snd sched') =
       foldl (\<lambda>w b. batch_effect lib b w) (cancer_net st1, o1, s1) rest"
    by (simp add: c)
  also have "(cancer_net st1, o1, s1) = batch_effect lib batch (cancer_net st, opt, sched)"
    using e(1) ids by simp
  finally show ?case by simp
qed

lemma train_batches_printed:
  assumes "train_batches lib current_fold epoch num_epochs len batches i current_loss
             (st, (opt_id, opt), (sched_id, sched)) = (st', opt', sched')"
    and "i + length batches = len"
  shows "printed_loss (calls st') = printed_loss (calls st) +
           (if batches = [] then 0
            else current_loss + sum_list (batch_losses lib (cancer_net st, opt, sched) batches))"
  using assms
proof (induction batches arbitrary: i current_loss st opt sched)
  case Nil
  then show ?case by auto
next
  case (Cons batch rest)
  obtain loss st1 opt1 sched1 where step:
    "train_step lib batch (st, (opt_id, opt), (sched_id, sched)) = (loss, st1, opt1, sched1)"
    by (metis prod_cases4)
  note p = train_step_props [OF step]
  note e = train_step_effect [OF step]
  obtain o1 s1 where ids: "opt1 = (opt_id, o1)" "sched1 = (sched_id, s1)"
    using p(4,5) by (metis prod.collapse)
  have w1: "(cancer_net st1, o1, s1) = batch_effect lib batch (cancer_net st, opt, sched)"
    using e(1) ids by simp
  have pl1: "printed_loss (calls st1) = printed_loss (calls st)"
    by (simp add: p(3) printed_loss_append printed_loss_batch_calls)
  let ?p = "Progress (map_option Suc current_fold) (epoch + 1) num_epochs (i + 1) len (current_loss + loss)"
  from Cons.prems(2) have len: "(i + 1) + length rest = len"
    by simp
  show ?case
  proof (cases "i mod 10 = 9 \<or> int i = int len - 1")
    case True
    let ?st2 = "st1\<lparr>calls := calls st1 @ [?p]\<rparr>"
    from True Cons.prems(1) step ids have t:
      "train_batches lib current_fold epoch num_epochs len rest (i + 1) 0
         (?st2, (opt_id, o1), (sched_id, s1)) = (st', opt', sched')"
      by (simp add: Let_def)
    have "printed_loss (calls ?st2) = printed_loss (calls st) + (current_loss + loss)"
      by (simp add: printed_loss_append pl1) (simp add: printed_loss_def)
    with Cons.IH [OF t len] show ?thesis
      by (simp add: w1 e(2))
  next
    case False
    with Cons.prems(2) have ne: "rest \<noteq> []"
      by (cases rest) auto
    from False Cons.prems(1) step ids have t:
      "train_batches lib current_fold epoch num_epochs len rest (i + 1) (current_loss + loss)
         (st1, (opt_id, o1), (sched_id, s1)) = (st', opt', sched')"
      by (simp add: Let_def)
    from Cons.IH [OF t len] ne show ?thesis
      by (simp add: w1 e(2) pl1)
  qed
qed

lemma batch_losses_append:
  "batch_losses lib w (xs @ ys) =
     batch_losses lib w xs @ batch_losses lib (foldl (\<lambda>w b. batch_effect lib b w) w xs) ys"
  by (induction xs arbitrary: w) simp_all

lemma train_epochs_effect:
  assumes "train_epochs lib data_loader current_fold num_epochs epochs
             (st, (opt_id, opt), (sched_id, sched)) = Inr (st', opt', sched')"
    and "\<forall>k < length epochs.
           batches_of lib (heap st) (draws st + (if dl_shuffle data_loader then k else 0))
             data_loader = Inr (passes k)"
  shows "(cancer_net st', snd opt', snd sched') =
           foldl (\<lambda>w b. batch_effect lib b w) (cancer_net st, opt, sched)
             (concat (map passes [0..<length epochs])) \<and>
         printed_loss (calls st') = printed_loss (calls st) +
           sum_list (batch_losses lib (cancer_net st, opt, sched)
             (concat (map passes [0..<length epochs])))"
  using assms
proof (induction epochs arbitrary: st opt sched passes)
  case Nil
  then show ?case by auto
next
  case (Cons epoch rest)
  let ?st0 = "if dl_shuffle data_loader then st\<lparr>draws := draws st + 1\<rparr> else st"
  let ?w = "(cancer_net st, opt, sched)"
  from Cons.prems(2) have b0: "batches_of lib (heap st) (draws st) data_loader = Inr (passes 0)"
    by (cases "dl_shuffle data_loader") auto
  then have it: "iterate lib st data_loader = Inr (passes 0, ?st0)"
    by (simp add: iterate_def)
  have s0: "cancer_net ?st0 = cancer_net st" "calls ?st0 = calls st" "heap ?st0 = heap st"
    "draws ?st0 = draws st + (if dl_shuffle data_loader then 1 else 0)"
    by simp_all
  obtain st1 opt1 sched1 where tb:
    "train_batches lib current_fold epoch num_epochs (length (passes 0)) (passes 0) 0 0
       (?st0, (opt_id, opt), (sched_id, sched)) = (st1, opt1, sched1)"
    by (metis prod_cases3)
  from train_batches_props [OF tb] have p1:
    "unchanged ?st0 st1" "draws st1 = draws ?st0" "fst opt1 = opt_id" "fst sched1 = sched_id"
    by blast+
  obtain o1 s1 where ids: "opt1 = (opt_id, o1)" "sched1 = (sched_id, s1)"
    using p1(3,4) by (metis prod.collapse)
  have w1: "(cancer_net st1, o1, s1) = foldl (\<lambda>w b. batch_effect lib b w) ?w (passes 0)"
    using train_batches_effect [OF tb] ids by (simp only: s0 snd_conv)
  have "printed_loss (calls st1) = printed_loss (calls ?st0) +
      (if passes 0 = [] then 0
       else 0 + sum_list (batch_losses lib (cancer_net ?st0, opt, sched) (passes 0)))"
    by (rule train_batches_printed [OF tb]) simp
  then have pl1: "printed_loss (calls st1) =
      printed_loss (calls st) + sum_list (batch_losses lib ?w (passes 0))"
    by (simp only: s0) (cases "passes 0 = []", simp_all)
  have h1: "heap st1 = heap st"
    using p1(1) by (simp add: unchanged_def split: if_splits)
  have d1: "draws st1 = draws st + (if dl_shuffle data_loader then 1 else 0)"
    using p1(2) by simp
  have rest_passes: "\<forall>k < length rest.
      batches_of lib (heap st1) (draws st1 + (if dl_shuffle data_loader then k else 0))
        data_loader = Inr (passes (Suc k))"
  proof (intro allI impI)
    fix k assume "k < length rest"
    then have "Suc k < length (epoch # rest)" by simp
    with Cons.prems(2) have
      "batches_of lib (heap st) (draws st + (if dl_shuffle data_loader then Suc k else 0))
         data_loader = Inr (passes (Suc k))"
      by blast
    then show "batches_of lib (heap st1) (draws st1 + (if dl_shuffle data_loader then k else 0))
        data_loader = Inr (passes (Suc k))"
      by (cases "dl_shuffle data_loader") (simp_all add: h1 d1)
  qed
  from Cons.prems(1) it tb ids have run:
    "train_epochs lib data_loader current_fold num_epochs rest
       (st1, (opt_id, o1), (sched_id, s1)) = Inr (st', opt', sched')"
    by simp
  note ih = Cons.IH [OF run rest_passes]
  have upt: "[0..<length (epoch # rest)] = 0 # map Suc [0..<length rest]"
    by (simp add: upt_conv_Cons map_Suc_upt del: upt_Suc)
  have cat: "concat (map passes [0..<length (epoch # rest)]) =
      passes 0 @ concat (map (\<lambda>k. passes (Suc k)) [0..<length rest])"
    unfolding upt by (simp add: comp_def)
  from ih have "(cancer_net st', snd opt', snd sched') =
      foldl (\<lambda>w b. batch_effect lib b w) ?w (concat (map passes [0..<length (epoch # rest)]))"
    unfolding cat by (simp add: w1)
  moreover from ih have "printed_loss (calls st') = printed_loss (calls st) +
      sum_list (batch_losses lib ?w (concat (map passes [0..<length (epoch # rest)])))"
    unfolding cat by (simp add: w1 pl1 batch_losses_append)
  ultimately show ?case by blast
qed

lemma train_model_effect:
  assumes "train_model lib st data_loader (opt_id, opt) (sched_id, sched) current_fold num_epochs =
             Inr (st', opt', sched')"
    and "\<forall>epoch < num_epochs.
           batches_of lib (heap st) (draws st + (if dl_shuffle data_loader then epoch else 0))
             data_loader = Inr (passes epoch)"
  shows "(cancer_net st', snd opt', snd sched') =
           foldl (\<lambda>w b. batch_effect lib b w) ((cancer_net st)\<lparr>training := True\<rparr>, opt, sched)
             (concat (map passes [0..<num_epochs]))"
    and "printed_loss (calls st') = printed_loss (calls st) +
           sum_list (batch_losses lib ((cancer_net st)\<lparr>training := True\<rparr>, opt, sched)
             (concat (map passes [0..<num_epochs])))"
proof -
  let ?st = "st\<lparr>cancer_net := (cancer_net st)\<lparr>training := True\<rparr>, calls := calls st @ [ModelTrain]\<rparr>"
  from assms(1) obtain st1 where
    te: "train_epochs lib data_loader current_fold num_epochs [0..<num_epochs]
       (?st, (opt_id, opt), (sched_id, sched)) = Inr (st1, opt', sched')"
    and st': "st' = st1\<lparr>calls := calls st1 @ [TrainingComplete]\<rparr>"
    by (auto simp: train_model_def Let_def split: sum.splits)
  have "\<forall>k < length [0..<num_epochs].
          batches_of lib (heap ?st) (draws ?st + (if dl_shuffle data_loader then k else 0))
            data_loader = Inr (passes k)"
    using assms(2) by simp
  from train_epochs_effect [OF te this] have
    e: "(cancer_net st1, snd opt', snd sched') =
      foldl (\<lambda>w b. batch_effect lib b w) ((cancer_net st)\<lparr>training := True\<rparr>, opt, sched)
        (concat (map passes [0..<num_epochs]))"
    and l: "printed_loss (calls st1) = printed_loss (calls ?st) +
      sum_list (batch_losses lib ((cancer_net st)\<lparr>training := True\<rparr>, opt, sched)
        (concat (map passes [0..<num_epochs])))"
    by simp_all
  show "(cancer_net st', snd opt', snd sched') =
      foldl (\<lambda>w b. batch_effect lib b w) ((cancer_net st)\<lparr>training := True\<rparr>, opt, sched)
        (concat (map passes [0..<num_epochs]))"
    using e by (simp add: st')
  show "printed_loss (calls st') = printed_loss (calls st) +
      sum_list (batch_losses lib ((cancer_net st)\<lparr>training := True\<rparr>, opt, sched)
        (concat (map passes [0..<num_epochs])))"
    using l by (simp add: st' printed_loss_append) (simp add: printed_loss_def)
qed

text \<open>
  C7: \<open>train_model\<close> runs exactly \<open>num_epochs\<close> full passes over the loader. Whenever
  the loader delivers the batches of every pass, the function returns, and the network,
  the optimizer and the scheduler it leaves are the ones it was given (the network put
  in training mode) after \<open>batch_effect\<close> on every batch of every pass in order: the
  forward computation, the gradient of the loss against the labels cast to floating
  point, one optimizer step on that gradient, then one scheduler step on the stepped
  optimizer. The rest of the notebook state is left alone. The calls it makes (the
  printed progress lines left out) are, after \<open>model.train()\<close>, for every batch: zero
  the gradients, forward, loss, backward, optimizer step, scheduler step, so each of
  the two is stepped once per batch; and the losses the progress lines print add up to
  the losses of all the batches, each computed on the network as the batches before it
  left it. The function gives back only the objects it changed.
\<close>

theorem train_model_runs_passes:
  assumes "\<forall>epoch < num_epochs.
             batches_of lib (heap st) (draws st + (if dl_shuffle data_loader then epoch else 0))
               data_loader = Inr (passes epoch)"
  shows "\<exists>st' opt' sched' new.
           train_model lib st data_loader (opt_id, opt) (sched_id, sched) current_fold num_epochs =
             Inr (st', (opt_id, opt'), (sched_id, sched')) \<and>
           (cancer_net st', opt', sched') =
             foldl (\<lambda>w batch. batch_effect lib batch w)
               ((cancer_net st)\<lparr>training := True\<rparr>, opt, sched)
               (concat (map passes [0..<num_epochs])) \<and>
           unchanged st st' \<and>
           calls st' = calls st @ new \<and>
           steps new =
             ModelTrain #
             concat (map (\<lambda>epoch. concat (map (batch_calls opt_id sched_id) (passes epoch)))
               [0..<num_epochs]) @
             [TrainingComplete] \<and>
           printed_loss new =
             sum_list (batch_losses lib ((cancer_net st)\<lparr>training := True\<rparr>, opt, sched)
               (concat (map passes [0..<num_epochs]))) \<and>
           length (filter (\<lambda>e. e = OptimizerStep opt_id) new) =
             sum_list (map (\<lambda>epoch. length (passes epoch)) [0..<num_epochs]) \<and>
           length (filter (\<lambda>e. e = SchedulerStep sched_id) new) =
             sum_list (map (\<lambda>epoch. length (passes epoch)) [0..<num_epochs])"
proof -
  from train_model_run [OF assms, of opt_id opt sched_id sched current_fold]
  obtain st' opt' sched' new where r:
    "train_model lib st data_loader (opt_id, opt) (sched_id, sched) current_fold num_epochs =
       Inr (st', (opt_id, opt'), (sched_id, sched'))"
    "calls st' = calls st @ new"
    "steps new =
       ModelTrain #
       concat (map (\<lambda>epoch. concat (map (batch_calls opt_id sched_id) (passes epoch)))
         [0..<num_epochs]) @
       [TrainingComplete]"
    "unchanged st st'"
    by blast
  note e = train_model_effect [OF r(1) assms]
  have eff: "(cancer_net st', opt', sched') =
      foldl (\<lambda>w batch. batch_effect lib batch w)
        ((cancer_net st)\<lparr>training := True\<rparr>, opt, sched)
        (concat (map passes [0..<num_epochs]))"
    using e(1) by simp
  have loss: "printed_loss new =
      sum_list (batch_losses lib ((cancer_net st)\<lparr>training := True\<rparr>, opt, sched)
        (concat (map passes [0..<num_epochs])))"
    using e(2) by (simp add: r(2) printed_loss_append)
  have count: "length (filter (\<lambda>x. x = e) new) =
      sum_list (map (\<lambda>epoch. length (passes epoch)) [0..<num_epochs])"
    if e: "\<not> is_progress e" "e \<noteq> ModelTrain" "e \<noteq> TrainingComplete"
      and one: "\<And>batch. length (filter (\<lambda>x. x = e) (batch_calls opt_id sched_id batch)) = 1"
    for e
  proof -
    have "length (filter (\<lambda>x. x = e) new) = length (filter (\<lambda>x. x = e) (steps new))"
      using e(1) by (rule count_in_steps)
    also have "\<dots> = length (filter (\<lambda>x. x = e)
        (concat (map (\<lambda>epoch. concat (map (batch_calls opt_id sched_id) (passes epoch)))
          [0..<num_epochs])))"
      unfolding r(3) using e(2,3) by simp
    also have "\<dots> = sum_list (map (\<lambda>epoch. length (passes epoch)) [0..<num_epochs])"
      by (simp add: count_concat one sum_list_triv del: upt_Suc)
    finally show ?thesis .
  qed
  have "length (filter (\<lambda>e. e = OptimizerStep opt_id) new) =
      sum_list (map (\<lambda>epoch. length (passes epoch)) [0..<num_epochs])"
    by (rule count) (simp_all add: count_batch_calls)
  moreover have "length (filter (\<lambda>e. e = SchedulerStep sched_id) new) =
      sum_list (map (\<lambda>epoch. length (passes epoch)) [0..<num_epochs])"
    by (rule count) (simp_all add: count_batch_calls)
  ultimately show ?thesis
    using r eff loss by blast
qed

lemma toy_passes:
  "\<forall>epoch < 2.
     batches_of toy_lib (heap (toy_state [1, 0, 1]))
       (draws (toy_state [1, 0, 1]) +
        (if dl_shuffle \<lparr>dl_dataset = ImageFolder dataset, dl_batch_size = 2, dl_shuffle = False\<rparr>
         then epoch else 0))
       \<lparr>dl_dataset = ImageFolder dataset, dl_batch_size = 2, dl_shuffle = False\<rparr> =
     Inr [[(Image 0 None, 1), (Image 1 None, 0)], [(Image 2 None, 1)]]"
  by (simp add: toy_defs upt_rec chunks_Cons chunks_Nil)

text \<open>
  C7 on two epochs over three samples in batches of two: four batches, after which the
  parameters, the optimizer and the scheduler have each been stepped four times.
\<close>

theorem train_model_runs_passes_witness:
  "\<exists>st' new.
     train_model toy_lib (toy_state [1, 0, 1])
       \<lparr>dl_dataset = ImageFolder dataset, dl_batch_size = 2, dl_shuffle = False\<rparr>
       (0, 0) (1, 0) None 2 = Inr (st', (0, 4), (1, 4)) \<and>
     cancer_net st' = \<lparr>params = 4, grad = Some 1, training = True\<rparr> \<and>
     unchanged (toy_state [1, 0, 1]) st' \<and>
     calls st' = calls (toy_state [1, 0, 1]) @ new \<and>
     steps new =
       [ModelTrain,
        ZeroGrad 0, Forward [Image 0 None, Image 1 None], LossFn [1, 0], Backward,
        OptimizerStep 0, SchedulerStep 1,
        ZeroGrad 0, Forward [Image 2 None], LossFn [1], Backward,
        OptimizerStep 0, SchedulerStep 1,
        ZeroGrad 0, Forward [Image 0 None, Image 1 None], LossFn [1, 0], Backward,
        OptimizerStep 0, SchedulerStep 1,
        ZeroGrad 0, Forward [Image 2 None], LossFn [1], Backward,
        OptimizerStep 0, SchedulerStep 1,
        TrainingComplete] \<and>
     printed_loss new = 4 \<and>
     length (filter (\<lambda>e. e = OptimizerStep 0) new) = 4 \<and>
     length (filter (\<lambda>e. e = SchedulerStep 1) new) = 4"
proof -
  have e: "[0..<2::nat] = [0, 1]"
    by (simp add: upt_rec)
  have net: "cancer_net (toy_state [1, 0, 1]) = \<lparr>params = 0, grad = None, training = True\<rparr>"
    by (simp add: toy_state_def setup_cells_def)
  show ?thesis
    using train_model_runs_passes [OF toy_passes, of 0 0 1 0 None]
    unfolding e batch_calls_def net
    by (simp add: eval_nat_numeral batch_effect_def batch_loss_def toy_lib_def Let_def)
qed

section \<open>Properties of the cross-validation loop\<close>

lemma evaluate_model_props:
  assumes "evaluate_model lib st data_loader threshold = Inr (m, st')"
  shows "unchanged st st'" and "calls st' = calls st @ [ModelEval]"
    and "params (cancer_net st') = params (cancer_net st)"
  using assms
  by (auto simp: evaluate_model_unfold eval_state_def unchanged_def Let_def split: sum.splits)

lemma new_optimizer_scheduler_props:
  assumes "new_optimizer_scheduler lib st = (st', opt, sched)"
  shows "opt = (next_id st, snd (CyclicLR lib (AdamW lib)))"
    and "sched = (next_id st + 1, fst (CyclicLR lib (AdamW lib)))"
    and "st' = st\<lparr>optimizer := Some opt, scheduler := Some sched, next_id := next_id st + 2\<rparr>"
  using assms by (auto simp: new_optimizer_scheduler_def Let_def)

lemma fold_setup_props:
  assumes "fold_setup lib batch_size train_i test_i st = (st', opt, sched, train_loader, test_loader)"
  shows "opt = (next_id st, snd (CyclicLR lib (AdamW lib)))"
    and "sched = (next_id st + 1, fst (CyclicLR lib (AdamW lib)))"
    and "train_loader = \<lparr>dl_dataset = Subset dataset train_i, dl_batch_size = batch_size, dl_shuffle = True\<rparr>"
    and "test_loader = \<lparr>dl_dataset = Subset dataset test_i, dl_batch_size = 1, dl_shuffle = False\<rparr>"
    and "st' = st\<lparr>optimizer := Some opt, scheduler := Some sched, next_id := next_id st + 2,
                  heap := (heap st)(dataset := (heap st dataset)\<lparr>transform := Some test_transform\<rparr>)\<rparr>"
  using assms
  by (auto simp: fold_setup_def new_optimizer_scheduler_def set_transform_def Let_def)


lemma in_steps: "e \<in> set evs \<Longrightarrow> is_progress e \<or> e \<in> set (steps evs)"
  by (auto simp: steps_def)

lemma is_progress_train: "is_progress e \<Longrightarrow> is_train_event e"
  by (cases e) simp_all

lemma train_event_not_save: "is_train_event e \<Longrightarrow> is_save e \<Longrightarrow> False"
  by (cases e) simp_all

lemma batch_calls_train: "e \<in> set (batch_calls opt_id sched_id batch) \<Longrightarrow> is_train_event e"
  by (auto simp: batch_calls_def)

lemma train_model_props:
  assumes "train_model lib st data_loader (opt_id, opt) (sched_id, sched) current_fold num_epochs =
             Inr (st', opt', sched')"
  shows "unchanged st st'" and "fst opt' = opt_id" and "fst sched' = sched_id"
    and "\<exists>new. calls st' = calls st @ new \<and> list_all is_train_event new"
proof -
  from train_model_Inr_passes [OF assms] obtain passes where
    "\<forall>epoch < num_epochs.
       batches_of lib (heap st) (draws st + (if dl_shuffle data_loader then epoch else 0))
         data_loader = Inr (passes epoch)"
    by blast
  from train_model_run [OF this, of opt_id opt sched_id sched current_fold] assms
  obtain new where r: "unchanged st st'" "fst opt' = opt_id" "fst sched' = sched_id"
    "calls st' = calls st @ new"
    "steps new =
       ModelTrain #
       concat (map (\<lambda>epoch. concat (map (batch_calls opt_id sched_id) (passes epoch)))
         [0..<num_epochs]) @
       [TrainingComplete]"
    by auto
  have "is_train_event e" if "e \<in> set new" for e
  proof -
    from in_steps [OF that] show ?thesis
    proof
      assume "is_progress e"
      then show ?thesis by (rule is_progress_train)
    next
      assume "e \<in> set (steps new)"
      then show ?thesis
        unfolding r(5) by (auto dest: batch_calls_train)
    qed
  qed
  then have "list_all is_train_event new"
    by (simp add: list_all_iff)
  with r show "unchanged st st'" "fst opt' = opt_id" "fst sched' = sched_id"
    "\<exists>new. calls st' = calls st @ new \<and> list_all is_train_event new"
    by blast+
qed

lemma cv_fold_Inr_cases:
  assumes "cv_fold lib batch_size num_epochs fold_no split st = Inr st'"
  obtains st1 opt sched train_loader test_loader st2 opt2 sched2 m st3 tot where
    "fold_setup lib batch_size (fst split) (snd split) st =
       (st1, opt, sched, train_loader, test_loader)"
    "train_model lib st1 train_loader opt sched (Some fold_no) num_epochs = Inr (st2, opt2, sched2)"
    "evaluate_model lib (st2\<lparr>optimizer := Some opt2, scheduler := Some sched2\<rparr>) test_loader (3 / 10)
       = Inr (m, st3)"
    "st' = load_state_dict
       (st3\<lparr>totals := tot,
            calls := calls st3 @ [TestMetrics (fst m) (fst (snd m)) (fst (snd (snd m))) (snd (snd (snd m)))]\<rparr>)"
  using assms
  by (auto simp: cv_fold_def Let_def split: prod.splits sum.splits)

lemma cv_fold_props:
  assumes "cv_fold lib batch_size num_epochs fold_no split st = Inr st'"
  shows "params (cancer_net st') = state_dict st" and "state_dict st' = state_dict st"
    and "next_id st' = next_id st + 2"
    and "targets (heap st' dataset) = targets (heap st dataset)"
    and "files st' = files st"
    and "\<exists>new. calls st' = calls st @ new \<and> list_all (\<lambda>e. \<not> is_save e) new"
proof -
  from assms obtain st1 opt sched train_loader test_loader st2 opt2 sched2 m st3 tot where
    fs: "fold_setup lib batch_size (fst split) (snd split) st =
       (st1, opt, sched, train_loader, test_loader)"
    and tm: "train_model lib st1 train_loader opt sched (Some fold_no) num_epochs =
       Inr (st2, opt2, sched2)"
    and ev: "evaluate_model lib (st2\<lparr>optimizer := Some opt2, scheduler := Some sched2\<rparr>)
       test_loader (3 / 10) = Inr (m, st3)"
    and st': "st' = load_state_dict
       (st3\<lparr>totals := tot,
            calls := calls st3 @ [TestMetrics (fst m) (fst (snd m)) (fst (snd (snd m))) (snd (snd (snd m)))]\<rparr>)"
    by (rule cv_fold_Inr_cases)
  note f = fold_setup_props [OF fs]
  from tm have tm': "train_model lib st1 train_loader (fst opt, snd opt) (fst sched, snd sched)
      (Some fold_no) num_epochs = Inr (st2, opt2, sched2)"
    by simp
  note t = train_model_props [OF tm']
  note e = evaluate_model_props [OF ev]
  from t(4) obtain new where new: "calls st2 = calls st1 @ new" "list_all is_train_event new"
    by blast
  have u: "heap st3 = heap st1 \<and> state_dict st3 = state_dict st1 \<and> files st3 = files st1 \<and>
      next_id st3 = next_id st1"
    using t(1) e(1) by (simp add: unchanged_def)
  show "state_dict st' = state_dict st"
    using u f(5) by (simp add: st' load_state_dict_def unchanged_def)
  then show "params (cancer_net st') = state_dict st"
    by (simp add: st' load_state_dict_def)
  show "next_id st' = next_id st + 2"
    using u f(5) by (simp add: st' load_state_dict_def unchanged_def)
  show "targets (heap st' dataset) = targets (heap st dataset)"
    using u f(5) by (simp add: st' load_state_dict_def unchanged_def)
  show "files st' = files st"
    using u f(5) by (simp add: st' load_state_dict_def unchanged_def)
  have "calls st' = calls st @ (new @ [ModelEval,
      TestMetrics (fst m) (fst (snd m)) (fst (snd (snd m))) (snd (snd (snd m)))])"
    using new(1) e(2) f(5) by (simp add: st' load_state_dict_def)
  moreover have "list_all (\<lambda>e. \<not> is_save e) (new @ [ModelEval,
      TestMetrics (fst m) (fst (snd m)) (fst (snd (snd m))) (snd (snd (snd m)))])"
    using new(2) by (auto simp: list_all_iff dest: train_event_not_save)
  ultimately show "\<exists>new. calls st' = calls st @ new \<and> list_all (\<lambda>e. \<not> is_save e) new"
    by blast
qed


lemma cv_loop_append:
  "cv_loop lib batch_size num_epochs (xs @ ys) st =
     (case cv_loop lib batch_size num_epochs xs st of
        Inl e \<Rightarrow> Inl e
      | Inr st' \<Rightarrow> cv_loop lib batch_size num_epochs ys st')"
  by (induction xs arbitrary: st) (auto split: sum.splits)

lemma cv_loop_props:
  assumes "cv_loop lib batch_size num_epochs splits st = Inr st'"
  shows "state_dict st' = state_dict st"
    and "splits \<noteq> [] \<longrightarrow> params (cancer_net st') = state_dict st"
    and "next_id st' = next_id st + 2 * length splits"
    and "targets (heap st' dataset) = targets (heap st dataset)"
    and "files st' = files st"
    and "\<exists>new. calls st' = calls st @ new \<and> list_all (\<lambda>e. \<not> is_save e) new"
  using assms
proof (induction splits arbitrary: st)
  case Nil
  {
    case 1 then show ?case by simp
  next
    case 2 then show ?case by simp
  next
    case 3 then show ?case by simp
  next
    case 4 then show ?case by simp
  next
    case 5 then show ?case by simp
  next
    case 6 then show ?case by simp
  }
next
  case (Cons s rest)
  {
    case 1
    then obtain st1 where f: "cv_fold lib batch_size num_epochs (fst s) (snd s) st = Inr st1"
      and l: "cv_loop lib batch_size num_epochs rest st1 = Inr st'"
      by (cases s) (auto split: sum.splits)
    from Cons.IH(1) [OF l] cv_fold_props(2) [OF f] show ?case by simp
  next
    case 2
    then obtain st1 where f: "cv_fold lib batch_size num_epochs (fst s) (snd s) st = Inr st1"
      and l: "cv_loop lib batch_size num_epochs rest st1 = Inr st'"
      by (cases s) (auto split: sum.splits)
    show ?case
    proof (cases rest)
      case Nil
      with l cv_fold_props(1) [OF f] show ?thesis by simp
    next
      case (Cons a list)
      with Cons.IH(2) [OF l] cv_fold_props(2) [OF f] show ?thesis by simp
    qed
  next
    case 3
    then obtain st1 where f: "cv_fold lib batch_size num_epochs (fst s) (snd s) st = Inr st1"
      and l: "cv_loop lib batch_size num_epochs rest st1 = Inr st'"
      by (cases s) (auto split: sum.splits)
    from Cons.IH(3) [OF l] cv_fold_props(3) [OF f] show ?case by simp
  next
    case 4
    then obtain st1 where f: "cv_fold lib batch_size num_epochs (fst s) (snd s) st = Inr st1"
      and l: "cv_loop lib batch_size num_epochs rest st1 = Inr st'"
      by (cases s) (auto split: sum.splits)
    from Cons.IH(4) [OF l] cv_fold_props(4) [OF f] show ?case by simp
  next
    case 5
    then obtain st1 where f: "cv_fold lib batch_size num_epochs (fst s) (snd s) st = Inr st1"
      and l: "cv_loop lib batch_size num_epochs rest st1 = Inr st'"
      by (cases s) (auto split: sum.splits)
    from Cons.IH(5) [OF l] cv_fold_props(5) [OF f] show ?case by simp
  next
    case 6
    then obtain st1 where f: "cv_fold lib batch_size num_epochs (fst s) (snd s) st = Inr st1"
      and l: "cv_loop lib batch_size num_epochs rest st1 = Inr st'"
      by (cases s) (auto split: sum.splits)
    from Cons.IH(6) [OF l] cv_fold_props(6) [OF f] show ?case
      by (metis append.assoc list_all_append)
  }
qed

lemmas run_defs = cv_fold_def fold_setup_def new_optimizer_scheduler_def set_transform_def
  train_model_def iterate_def train_step_def evaluate_model_def load_state_dict_def

subsection \<open>The transform in force during a fold\<close>

lemma fold_setup_transform:
  "(case fold_setup lib batch_size train_i test_i st of
      (st', opt, sched, train_loader, test_loader) \<Rightarrow>
        transform (heap st' (dataset_of (dl_dataset train_loader))) = Some test_transform \<and>
        transform (heap st' (dataset_of (dl_dataset test_loader))) = Some test_transform)"
  by (simp add: fold_setup_def set_transform_def Let_def split: prod.splits)

text \<open>
  C1: in every fold the Trainer should read its batches under the training-time
  transform and the Evaluator under the evaluation-time transform. Both subsets refer to
  the one dataset object, and the loop body assigns \<open>test_transform\<close> to it after
  \<open>train_transform\<close> and before \<open>train_model\<close> is called. In the first fold of a run
  over four files the forward pass of training receives images read under
  \<open>test_transform\<close>.
\<close>

theorem cv_fold_trains_under_test_transform:
  "map_sum id (\<lambda>st. steps (calls st))
     (cv_fold toy_lib 32 1 0 ([0, 1], [2, 3]) (toy_state [1, 0, 1, 0])) =
   Inr [ModelTrain,
        ZeroGrad 0, Forward [Image 1 (Some test_transform), Image 0 (Some test_transform)],
        LossFn [0, 1], Backward, OptimizerStep 0, SchedulerStep 1,
        TrainingComplete, ModelEval, TestMetrics 1 1 1 1]"
  apply (simp add: run_defs toy_defs upt_rec chunks_Cons chunks_Cons_1 chunks_Nil Let_def)
  apply (simp add: tensor_defs sigmoid_ln9 sigmoid_neg_ln9)
  apply (simp add: metrics_def py_truediv_def load_state_dict_def steps_def)
  done

lemma toy_fold_0:
  "\<exists>st. cv_fold toy_lib 32 1 0 ([0, 1], [2, 3]) (toy_state [1, 0, 1, 0]) = Inr st \<and>
        optimizer st = Some (0, 1) \<and> scheduler st = Some (1, 1)"
  apply (simp add: run_defs toy_defs upt_rec chunks_Cons chunks_Cons_1 chunks_Nil Let_def)
  apply (simp add: tensor_defs sigmoid_ln9 sigmoid_neg_ln9)
  apply (simp add: metrics_def py_truediv_def load_state_dict_def)
  done

subsection \<open>The parameters at the start of a fold\<close>

lemma setup_cells_snapshot:
  "params (cancer_net (setup_cells labels p0)) = p0" "state_dict (setup_cells labels p0) = p0"
  by (simp_all add: setup_cells_def)

text \<open>
  C4: the state in which fold \<open>k\<close> of the cross-validation loop starts is the state
  after the first \<open>k\<close> folds have run. In it the parameters of the network equal the
  snapshot taken when the network was constructed.
\<close>

theorem fold_starts_from_snapshot:
  assumes "cv_loop lib batch_size num_epochs (take k splits) (setup_cells labels p0) = Inr st"
  shows "params (cancer_net st) = p0 \<and> state_dict st = p0"
proof (cases "take k splits = []")
  case True
  with assms have "st = setup_cells labels p0" by simp
  then show ?thesis by (simp add: setup_cells_snapshot)
next
  case False
  with cv_loop_props(1,2) [OF assms] show ?thesis by (simp add: setup_cells_snapshot)
qed

text \<open>C4 at the start of the second fold of a run over four files.\<close>

theorem fold_starts_from_snapshot_witness:
  "\<exists>st. cv_loop toy_lib 32 1 (take 1 [(0, [0, 1], [2, 3]), (1, [2, 3], [0, 1])])
          (setup_cells [1, 0, 1, 0] 0) = Inr st \<and>
        params (cancer_net st) = 0 \<and> state_dict st = 0"
proof -
  from toy_fold_0 obtain st where
    "cv_fold toy_lib 32 1 0 ([0, 1], [2, 3]) (toy_state [1, 0, 1, 0]) = Inr st"
    by blast
  then have l: "cv_loop toy_lib 32 1 (take 1 [(0, [0, 1], [2, 3]), (1, [2, 3], [0, 1])])
      (setup_cells [1, 0, 1, 0] 0) = Inr st"
    by (simp add: toy_state_def)
  from fold_starts_from_snapshot [OF l] l show ?thesis by blast
qed

subsection \<open>The optimizer and the scheduler of a fold\<close>

lemma cv_loop_next_id:
  "cv_loop lib batch_size num_epochs (take k splits) st0 = Inr st \<Longrightarrow> k \<le> length splits \<Longrightarrow>
   next_id st = next_id st0 + 2 * k"
  using cv_loop_props(3) [of lib batch_size num_epochs "take k splits" st0 st] by simp

lemma opt_ids_append: "opt_ids (xs @ ys) = opt_ids xs @ opt_ids ys"
  by (simp add: opt_ids_def)

lemma sched_ids_append: "sched_ids (xs @ ys) = sched_ids xs @ sched_ids ys"
  by (simp add: sched_ids_def)

lemma opt_ids_Nil: "opt_ids [] = []"
  by (simp add: opt_ids_def)

lemma opt_ids_Cons: "opt_ids (e # evs) = opt_ids_of e @ opt_ids evs"
  by (simp add: opt_ids_def)

lemma sched_ids_Nil: "sched_ids [] = []"
  by (simp add: sched_ids_def)

lemma sched_ids_Cons: "sched_ids (e # evs) = sched_ids_of e @ sched_ids evs"
  by (simp add: sched_ids_def)

lemma opt_ids_steps: "opt_ids (steps evs) = opt_ids evs"
proof (induction evs)
  case Nil
  then show ?case by (simp add: steps_def)
next
  case (Cons e evs)
  then show ?case by (cases e) (simp_all add: steps_def opt_ids_def)
qed

lemma sched_ids_steps: "sched_ids (steps evs) = sched_ids evs"
proof (induction evs)
  case Nil
  then show ?case by (simp add: steps_def)
next
  case (Cons e evs)
  then show ?case by (cases e) (simp_all add: steps_def sched_ids_def)
qed

lemma opt_ids_batches:
  "opt_ids (concat (map (batch_calls opt_id sched_id) batches)) =
     replicate (2 * length batches) opt_id"
  by (induction batches) (simp_all add: opt_ids_def batch_calls_def)

lemma sched_ids_batches:
  "sched_ids (concat (map (batch_calls opt_id sched_id) batches)) =
     replicate (length batches) sched_id"
  by (induction batches) (simp_all add: sched_ids_def batch_calls_def)

lemma concat_passes:
  "concat (map (\<lambda>epoch. concat (map f (passes epoch))) epochs) =
     concat (map f (concat (map passes epochs)))"
  by (induction epochs) simp_all

lemma cv_fold_objects:
  assumes "cv_fold lib batch_size num_epochs fold_no split st = Inr st'"
  shows "\<exists>new passes net' opt' sched'.
           calls st' = calls st @ new \<and>
           (\<forall>epoch < num_epochs.
              batches_of lib (set_transform (heap st) dataset test_transform) (draws st + epoch)
                \<lparr>dl_dataset = Subset dataset (fst split), dl_batch_size = batch_size,
                  dl_shuffle = True\<rparr> = Inr (passes epoch)) \<and>
           opt_ids new =
             replicate (2 * length (concat (map passes [0..<num_epochs]))) (next_id st) \<and>
           sched_ids new =
             replicate (length (concat (map passes [0..<num_epochs]))) (next_id st + 1) \<and>
           (net', opt', sched') =
             foldl (\<lambda>w batch. batch_effect lib batch w)
               ((cancer_net st)\<lparr>training := True\<rparr>,
                snd (CyclicLR lib (AdamW lib)), fst (CyclicLR lib (AdamW lib)))
               (concat (map passes [0..<num_epochs])) \<and>
           optimizer st' = Some (next_id st, opt') \<and>
           scheduler st' = Some (next_id st + 1, sched')"
proof -
  from assms obtain st1 opt sched train_loader test_loader st2 opt2 sched2 m st3 tot where
    fs: "fold_setup lib batch_size (fst split) (snd split) st =
       (st1, opt, sched, train_loader, test_loader)"
    and tm: "train_model lib st1 train_loader opt sched (Some fold_no) num_epochs =
       Inr (st2, opt2, sched2)"
    and ev: "evaluate_model lib (st2\<lparr>optimizer := Some opt2, scheduler := Some sched2\<rparr>)
       test_loader (3 / 10) = Inr (m, st3)"
    and st': "st' = load_state_dict
       (st3\<lparr>totals := tot,
            calls := calls st3 @ [TestMetrics (fst m) (fst (snd m)) (fst (snd (snd m))) (snd (snd (snd m)))]\<rparr>)"
    by (rule cv_fold_Inr_cases)
  note f = fold_setup_props [OF fs]
  let ?o0 = "snd (CyclicLR lib (AdamW lib))"
  let ?s0 = "fst (CyclicLR lib (AdamW lib))"
  let ?dl = "\<lparr>dl_dataset = Subset dataset (fst split), dl_batch_size = batch_size, dl_shuffle = True\<rparr>"
  have s1: "heap st1 = set_transform (heap st) dataset test_transform" "draws st1 = draws st"
    "cancer_net st1 = cancer_net st" "calls st1 = calls st"
    by (simp_all add: f(5) set_transform_def)
  from tm have tm': "train_model lib st1 ?dl (next_id st, ?o0) (next_id st + 1, ?s0)
      (Some fold_no) num_epochs = Inr (st2, opt2, sched2)"
    by (simp add: f(1,2,3))
  from train_model_Inr_passes [OF tm'] obtain passes where
    ps: "\<forall>epoch < num_epochs.
       batches_of lib (heap st1) (draws st1 + (if dl_shuffle ?dl then epoch else 0)) ?dl =
         Inr (passes epoch)"
    by blast
  from train_model_run [OF ps, of "next_id st" ?o0 "next_id st + 1" ?s0 "Some fold_no"] tm'
  obtain new where r: "calls st2 = calls st1 @ new"
    "steps new =
       ModelTrain #
       concat (map (\<lambda>epoch. concat (map (batch_calls (next_id st) (next_id st + 1)) (passes epoch)))
         [0..<num_epochs]) @
       [TrainingComplete]"
    "fst opt2 = next_id st" "fst sched2 = next_id st + 1"
    by auto
  note e = train_model_effect(1) [OF tm' ps]
  note v = evaluate_model_props [OF ev]
  let ?tail = "[ModelEval,
      TestMetrics (fst m) (fst (snd m)) (fst (snd (snd m))) (snd (snd (snd m)))]"
  have c: "calls st' = calls st @ (new @ ?tail)"
    using r(1) v(2) by (simp add: st' load_state_dict_def s1)
  have "opt_ids new = opt_ids (steps new)"
    by (simp add: opt_ids_steps)
  also have "\<dots> = replicate (2 * length (concat (map passes [0..<num_epochs]))) (next_id st)"
    unfolding r(2) concat_passes
    by (simp add: opt_ids_append opt_ids_batches opt_ids_Cons opt_ids_Nil del: upt_Suc)
  finally have oi: "opt_ids (new @ ?tail) =
      replicate (2 * length (concat (map passes [0..<num_epochs]))) (next_id st)"
    by (simp add: opt_ids_append opt_ids_Cons opt_ids_Nil)
  have "sched_ids new = sched_ids (steps new)"
    by (simp add: sched_ids_steps)
  also have "\<dots> = replicate (length (concat (map passes [0..<num_epochs]))) (next_id st + 1)"
    unfolding r(2) concat_passes
    by (simp add: sched_ids_append sched_ids_batches sched_ids_Cons sched_ids_Nil del: upt_Suc)
  finally have si: "sched_ids (new @ ?tail) =
      replicate (length (concat (map passes [0..<num_epochs]))) (next_id st + 1)"
    by (simp add: sched_ids_append sched_ids_Cons sched_ids_Nil)
  have ps': "\<forall>epoch < num_epochs.
      batches_of lib (set_transform (heap st) dataset test_transform) (draws st + epoch) ?dl =
        Inr (passes epoch)"
    using ps by (simp add: s1)
  have eff: "(cancer_net st2, snd opt2, snd sched2) =
      foldl (\<lambda>w batch. batch_effect lib batch w)
        ((cancer_net st)\<lparr>training := True\<rparr>, ?o0, ?s0)
        (concat (map passes [0..<num_epochs]))"
    using e by (simp add: s1)
  have "optimizer st3 = Some opt2" "scheduler st3 = Some sched2"
    using v(1) by (simp_all add: unchanged_def)
  then have g: "optimizer st' = Some (next_id st, snd opt2)"
    "scheduler st' = Some (next_id st + 1, snd sched2)"
    using r(3,4) by (simp_all add: st' load_state_dict_def prod_eq_iff)
  from c ps' oi si eff g show ?thesis
    by blast
qed

lemma toy_fold_1:
  assumes "cv_fold toy_lib 32 1 0 ([0, 1], [2, 3]) (toy_state [1, 0, 1, 0]) = Inr st_1"
  shows "\<exists>st_2. cv_fold toy_lib 32 1 1 ([2, 3], [0, 1]) st_1 = Inr st_2 \<and>
     optimizer st_2 = Some (2, 1) \<and> scheduler st_2 = Some (3, 1) \<and>
     opt_ids (calls st_1) = [0, 0] \<and> sched_ids (calls st_1) = [1] \<and>
     opt_ids (calls st_2) = [0, 0, 2, 2] \<and> sched_ids (calls st_2) = [1, 3]"
  using assms
  apply (simp add: run_defs toy_defs upt_rec chunks_Cons chunks_Cons_1 chunks_Nil Let_def)
  apply (simp add: tensor_defs sigmoid_ln9 sigmoid_neg_ln9)
  apply (simp add: metrics_def py_truediv_def load_state_dict_def)
  apply (erule subst)
  apply (simp add: opt_ids_def sched_ids_def eval_nat_numeral)
  done

lemma toy_two_folds:
  "\<exists>st_1 st_2.
     cv_fold toy_lib 32 1 0 ([0, 1], [2, 3]) (toy_state [1, 0, 1, 0]) = Inr st_1 \<and>
     cv_fold toy_lib 32 1 1 ([2, 3], [0, 1]) st_1 = Inr st_2 \<and>
     optimizer st_1 = Some (0, 1) \<and> scheduler st_1 = Some (1, 1) \<and>
     optimizer st_2 = Some (2, 1) \<and> scheduler st_2 = Some (3, 1) \<and>
     opt_ids (calls st_1) = [0, 0] \<and> sched_ids (calls st_1) = [1] \<and>
     opt_ids (calls st_2) = [0, 0, 2, 2] \<and> sched_ids (calls st_2) = [1, 3]"
proof -
  from toy_fold_0 obtain st_1 where
    f: "cv_fold toy_lib 32 1 0 ([0, 1], [2, 3]) (toy_state [1, 0, 1, 0]) = Inr st_1"
    and g: "optimizer st_1 = Some (0, 1)" "scheduler st_1 = Some (1, 1)"
    by blast
  from toy_fold_1 [OF f] f g show ?thesis
    by blast
qed

text \<open>
  C8: take two folds \<open>j < k\<close> of the cross-validation loop, each run from the state the
  loop has reached when it starts. The optimizer on which fold \<open>k\<close> calls \<open>zero_grad\<close>
  and \<open>step\<close>, and the scheduler on which it calls \<open>step\<close>, are the two objects
  allocated in fold \<open>k\<close> itself; fold \<open>j\<close> touches neither of them, and no optimizer
  or scheduler that fold \<open>j\<close> touches is touched in fold \<open>k\<close>. The states in which
  fold \<open>k\<close> leaves its optimizer and scheduler are the freshly constructed
  \<open>AdamW\<close> and \<open>CyclicLR\<close> states after the batches of fold \<open>k\<close> alone, whatever the
  globals held when the fold started.
\<close>

theorem fold_trains_fresh_optimizer_scheduler:
  assumes "j < k" and "k < length splits"
    and "cv_loop lib batch_size num_epochs (take j splits) st0 = Inr st_j"
    and "cv_fold lib batch_size num_epochs (fst (splits ! j)) (snd (splits ! j)) st_j = Inr st_j'"
    and "cv_loop lib batch_size num_epochs (take k splits) st0 = Inr st_k"
    and "cv_fold lib batch_size num_epochs (fst (splits ! k)) (snd (splits ! k)) st_k = Inr st_k'"
  shows "\<exists>new_j new_k passes net' opt' sched'.
           calls st_j' = calls st_j @ new_j \<and> calls st_k' = calls st_k @ new_k \<and>
           (\<forall>epoch < num_epochs.
              batches_of lib (set_transform (heap st_k) dataset test_transform)
                (draws st_k + epoch)
                \<lparr>dl_dataset = Subset dataset (fst (snd (splits ! k))),
                  dl_batch_size = batch_size, dl_shuffle = True\<rparr> = Inr (passes epoch)) \<and>
           opt_ids new_k =
             replicate (2 * length (concat (map passes [0..<num_epochs])))
               (next_id st0 + 2 * k) \<and>
           sched_ids new_k =
             replicate (length (concat (map passes [0..<num_epochs])))
               (next_id st0 + 2 * k + 1) \<and>
           set (opt_ids new_j) \<inter> set (opt_ids new_k) = {} \<and>
           set (sched_ids new_j) \<inter> set (sched_ids new_k) = {} \<and>
           set (opt_ids new_j) \<inter> set (sched_ids new_k) = {} \<and>
           set (sched_ids new_j) \<inter> set (opt_ids new_k) = {} \<and>
           set (opt_ids new_k) \<inter> set (sched_ids new_k) = {} \<and>
           (net', opt', sched') =
             foldl (\<lambda>w batch. batch_effect lib batch w)
               ((cancer_net st_k)\<lparr>training := True\<rparr>,
                snd (CyclicLR lib (AdamW lib)), fst (CyclicLR lib (AdamW lib)))
               (concat (map passes [0..<num_epochs])) \<and>
           optimizer st_k' = Some (next_id st0 + 2 * k, opt') \<and>
           scheduler st_k' = Some (next_id st0 + 2 * k + 1, sched')"
proof -
  from assms(1,2) have le: "j \<le> length splits" "k \<le> length splits"
    by simp_all
  have nj: "next_id st_j = next_id st0 + 2 * j"
    using assms(3) le(1) by (rule cv_loop_next_id)
  have nk: "next_id st_k = next_id st0 + 2 * k"
    using assms(5) le(2) by (rule cv_loop_next_id)
  from cv_fold_objects [OF assms(4)]
  obtain new_j and passes_j :: "nat \<Rightarrow> (image \<times> int) list list"
    where cj: "calls st_j' = calls st_j @ new_j"
    and oj: "opt_ids new_j =
      replicate (2 * length (concat (map passes_j [0..<num_epochs]))) (next_id st_j)"
    and sj: "sched_ids new_j =
      replicate (length (concat (map passes_j [0..<num_epochs]))) (next_id st_j + 1)"
    by (elim exE conjE) blast
  from cv_fold_objects [OF assms(6)] obtain new_k passes net' opt' sched' where
    ck: "calls st_k' = calls st_k @ new_k"
    and pk: "\<forall>epoch < num_epochs.
      batches_of lib (set_transform (heap st_k) dataset test_transform) (draws st_k + epoch)
        \<lparr>dl_dataset = Subset dataset (fst (snd (splits ! k))),
          dl_batch_size = batch_size, dl_shuffle = True\<rparr> = Inr (passes epoch)"
    and ok: "opt_ids new_k =
      replicate (2 * length (concat (map passes [0..<num_epochs]))) (next_id st_k)"
    and sk: "sched_ids new_k =
      replicate (length (concat (map passes [0..<num_epochs]))) (next_id st_k + 1)"
    and eff: "(net', opt', sched') =
      foldl (\<lambda>w batch. batch_effect lib batch w)
        ((cancer_net st_k)\<lparr>training := True\<rparr>,
         snd (CyclicLR lib (AdamW lib)), fst (CyclicLR lib (AdamW lib)))
        (concat (map passes [0..<num_epochs]))"
    and gk: "optimizer st_k' = Some (next_id st_k, opt')"
      "scheduler st_k' = Some (next_id st_k + 1, sched')"
    by (elim exE conjE) blast
  have sub: "set (opt_ids new_j) \<subseteq> {next_id st0 + 2 * j}"
    "set (sched_ids new_j) \<subseteq> {next_id st0 + 2 * j + 1}"
    "set (opt_ids new_k) \<subseteq> {next_id st0 + 2 * k}"
    "set (sched_ids new_k) \<subseteq> {next_id st0 + 2 * k + 1}"
    unfolding oj sj ok sk nj nk by (simp_all add: set_replicate_conv_if)
  have ne: "next_id st0 + 2 * j \<noteq> next_id st0 + 2 * k"
    "next_id st0 + 2 * j + 1 \<noteq> next_id st0 + 2 * k + 1"
    "next_id st0 + 2 * j \<noteq> next_id st0 + 2 * k + 1"
    "next_id st0 + 2 * j + 1 \<noteq> next_id st0 + 2 * k"
    "next_id st0 + 2 * k \<noteq> next_id st0 + 2 * k + 1"
    using \<open>j < k\<close> by presburger+
  have disj: "\<And>A B (a::nat) b. A \<subseteq> {a} \<Longrightarrow> B \<subseteq> {b} \<Longrightarrow> a \<noteq> b \<Longrightarrow> A \<inter> B = {}"
    by blast
  have d: "set (opt_ids new_j) \<inter> set (opt_ids new_k) = {}"
    "set (sched_ids new_j) \<inter> set (sched_ids new_k) = {}"
    "set (opt_ids new_j) \<inter> set (sched_ids new_k) = {}"
    "set (sched_ids new_j) \<inter> set (opt_ids new_k) = {}"
    "set (opt_ids new_k) \<inter> set (sched_ids new_k) = {}"
    using sub(1) sub(3) ne(1) apply (rule disj)
    using sub(2) sub(4) ne(2) apply (rule disj)
    using sub(1) sub(4) ne(3) apply (rule disj)
    using sub(2) sub(3) ne(4) apply (rule disj)
    using sub(3) sub(4) ne(5) apply (rule disj)
    done
  note ok' = ok [unfolded nk] and sk' = sk [unfolded nk] and gk' = gk [unfolded nk]
  show ?thesis
    apply (rule exI [of _ new_j], rule exI [of _ new_k], rule exI [of _ passes])
    apply (rule exI [of _ net'], rule exI [of _ opt'], rule exI [of _ sched'])
    apply (intro conjI)
    apply (rule cj)
    apply (rule ck)
    apply (rule pk)
    apply (rule ok')
    apply (rule sk')
    apply (rule d(1))
    apply (rule d(2))
    apply (rule d(3))
    apply (rule d(4))
    apply (rule d(5))
    apply (rule eff)
    apply (rule gk'(1))
    apply (rule gk'(2))
    done
qed

text \<open>
  C8 on the first two folds of a run over four files: when the second fold starts the
  globals hold the optimizer and scheduler the first fold has stepped once; the second
  fold steps two new objects, and leaves them stepped once.
\<close>

theorem fold_trains_fresh_optimizer_scheduler_witness:
  "\<exists>st_1 st_2 new_1.
     cv_loop toy_lib 32 1 (take 1 [(0, [0, 1], [2, 3]), (1, [2, 3], [0, 1])])
       (toy_state [1, 0, 1, 0]) = Inr st_1 \<and>
     cv_fold toy_lib 32 1 1 ([2, 3], [0, 1]) st_1 = Inr st_2 \<and>
     optimizer st_1 = Some (0, 1) \<and> scheduler st_1 = Some (1, 1) \<and>
     opt_ids (calls st_1) = [0, 0] \<and> sched_ids (calls st_1) = [1] \<and>
     calls st_2 = calls st_1 @ new_1 \<and>
     opt_ids new_1 = [2, 2] \<and> sched_ids new_1 = [3] \<and>
     set (opt_ids (calls st_1)) \<inter> set (opt_ids new_1) = {} \<and>
     set (sched_ids (calls st_1)) \<inter> set (sched_ids new_1) = {} \<and>
     optimizer st_2 = Some (2, 1) \<and> scheduler st_2 = Some (3, 1)"
proof -
  let ?splits = "[(0, [0, 1], [2, 3]), (1, [2, 3], [0, 1])] :: (nat \<times> nat list \<times> nat list) list"
  let ?st0 = "toy_state [1, 0, 1, 0]"
  from toy_two_folds obtain st_1 st_2 where
    f0: "cv_fold toy_lib 32 1 0 ([0, 1], [2, 3]) ?st0 = Inr st_1"
    and f1: "cv_fold toy_lib 32 1 1 ([2, 3], [0, 1]) st_1 = Inr st_2"
    and g: "optimizer st_1 = Some (0, 1)" "scheduler st_1 = Some (1, 1)"
      "optimizer st_2 = Some (2, 1)" "scheduler st_2 = Some (3, 1)"
      "opt_ids (calls st_1) = [0, 0]" "sched_ids (calls st_1) = [1]"
      "opt_ids (calls st_2) = [0, 0, 2, 2]" "sched_ids (calls st_2) = [1, 3]"
    by (elim exE conjE) blast
  have l0: "cv_loop toy_lib 32 1 (take 0 ?splits) ?st0 = Inr ?st0"
    by simp
  have l1: "cv_loop toy_lib 32 1 (take 1 ?splits) ?st0 = Inr st_1"
    using f0 by simp
  have c0: "cv_fold toy_lib 32 1 (fst (?splits ! 0)) (snd (?splits ! 0)) ?st0 = Inr st_1"
    using f0 by simp
  have c1: "cv_fold toy_lib 32 1 (fst (?splits ! 1)) (snd (?splits ! 1)) st_1 = Inr st_2"
    using f1 by simp
  have "(0::nat) < 1" "1 < length ?splits"
    by simp_all
  from fold_trains_fresh_optimizer_scheduler [OF this l0 c0 l1 c1]
  obtain new_0 new_1 where
    c: "calls st_1 = calls ?st0 @ new_0" "calls st_2 = calls st_1 @ new_1"
    and d: "set (opt_ids new_0) \<inter> set (opt_ids new_1) = {}"
      "set (sched_ids new_0) \<inter> set (sched_ids new_1) = {}"
    by (elim exE conjE) blast
  have "calls ?st0 = []"
    by (simp add: toy_state_def setup_cells_def)
  with c(1) have n0: "new_0 = calls st_1"
    by simp
  from g(7) c(2) g(5) have o1: "opt_ids new_1 = [2, 2]"
    by (simp add: opt_ids_append)
  from g(8) c(2) g(6) have s1: "sched_ids new_1 = [3]"
    by (simp add: sched_ids_append)
  show ?thesis
    apply (rule exI [of _ st_1], rule exI [of _ st_2], rule exI [of _ new_1])
    apply (intro conjI)
    apply (rule l1)
    apply (rule f1)
    apply (rule g(1))
    apply (rule g(2))
    apply (rule g(5))
    apply (rule g(6))
    apply (rule c(2))
    apply (rule o1)
    apply (rule s1)
    apply (rule d(1) [unfolded n0])
    apply (rule d(2) [unfolded n0])
    apply (rule g(3))
    apply (rule g(4))
    done
qed

section \<open>Properties of the final training\<close>

subsection \<open>Loading a whole pass\<close>






subsection \<open>The state after cross-validation\<close>


subsection \<open>The final training cell\<close>











end
